theory Spec2Isabelle
  imports Main "HOL-Library.Word"
begin

section \<open>JavaScript values as seen by channel.cc\<close>

text \<open>
  The binding inspects its arguments only through the V8 predicates \<open>IsString\<close>,
  \<open>IsInt32\<close>, \<open>IsUint32\<close>, \<open>IsNumber\<close>, \<open>IsDate\<close>, \<open>IsFunction\<close>, \<open>IsObject\<close>,
  \<open>IsUndefined\<close>, \<open>IsNull\<close>, \<open>StrictEquals\<close> and the \<open>HasInstance\<close> tests of the wrapper
  classes. A number is either an integral value (other than minus zero) or something else
  (a fraction, NaN, an infinity, minus zero). A string is the byte sequence that
  \<open>Nan::Utf8String\<close> produces for it; it may contain the byte 0. An object carries its
  class, its own enumerable data properties in enumeration order, and its own
  non-enumerable data properties: \<open>GetOwnPropertyNames\<close> lists the names of the former
  only, \<open>HasOwnProperty\<close> is true of the names of both.
\<close>

datatype jsnum = Integral int | NonIntegral

datatype objclass =
    PlainObject
  | FunctionObject
  | DateObject
  | ChannelCredentialsObject "nat option"
  | CallObject "nat option"
  | ChannelObject nat

datatype jsval =
    JSUndefined
  | JSNull
  | JSBoolean bool
  | JSNumber jsnum
  | JSString string
  | JSSymbol
  | JSObject objclass "(string \<times> jsval) list" "(string \<times> jsval) list"

fun IsUndefined :: "jsval \<Rightarrow> bool" where
  "IsUndefined JSUndefined = True"
| "IsUndefined _ = False"

fun IsNull :: "jsval \<Rightarrow> bool" where
  "IsNull JSNull = True"
| "IsNull _ = False"

fun IsString :: "jsval \<Rightarrow> bool" where
  "IsString (JSString s) = True"
| "IsString _ = False"

fun IsNumber :: "jsval \<Rightarrow> bool" where
  "IsNumber (JSNumber n) = True"
| "IsNumber _ = False"

fun IsInt32 :: "jsval \<Rightarrow> bool" where
  "IsInt32 (JSNumber (Integral n)) = (- (2 ^ 31) \<le> n \<and> n < 2 ^ 31)"
| "IsInt32 _ = False"

fun IsUint32 :: "jsval \<Rightarrow> bool" where
  "IsUint32 (JSNumber (Integral n)) = (0 \<le> n \<and> n < 2 ^ 32)"
| "IsUint32 _ = False"

fun IsObject :: "jsval \<Rightarrow> bool" where
  "IsObject (JSObject c ps hs) = True"
| "IsObject _ = False"

fun IsDate :: "jsval \<Rightarrow> bool" where
  "IsDate (JSObject DateObject ps hs) = True"
| "IsDate _ = False"

fun IsFunction :: "jsval \<Rightarrow> bool" where
  "IsFunction (JSObject FunctionObject ps hs) = True"
| "IsFunction _ = False"

text \<open>\<open>v->StrictEquals(Nan::True())\<close>: only the boolean \<open>true\<close> is strictly equal to it.\<close>

fun StrictEquals_True :: "jsval \<Rightarrow> bool" where
  "StrictEquals_True (JSBoolean b) = b"
| "StrictEquals_True _ = False"

text \<open>\<open>Nan::To<int32_t>(v).FromJust()\<close> and \<open>Nan::To<uint32_t>(v).FromJust()\<close> on a number.\<close>

fun To_int32 :: "jsval \<Rightarrow> 32 word" where
  "To_int32 (JSNumber (Integral n)) = word_of_int n"
| "To_int32 _ = 0"

fun To_uint32 :: "jsval \<Rightarrow> 32 word" where
  "To_uint32 (JSNumber (Integral n)) = word_of_int n"
| "To_uint32 _ = 0"

text \<open>The bytes of a string value (\<open>Utf8String\<close> without its terminator).\<close>

fun Utf8String :: "jsval \<Rightarrow> string" where
  "Utf8String (JSString s) = s"
| "Utf8String _ = []"

fun GetOwnPropertyNames :: "jsval \<Rightarrow> string list" where
  "GetOwnPropertyNames (JSObject c ps hs) = map fst ps"
| "GetOwnPropertyNames _ = []"

fun HasOwnProperty :: "jsval \<Rightarrow> string \<Rightarrow> bool" where
  "HasOwnProperty (JSObject c ps hs) k = (k \<in> set (map fst ps) \<or> k \<in> set (map fst hs))"
| "HasOwnProperty _ k = False"

fun Get :: "jsval \<Rightarrow> string \<Rightarrow> jsval" where
  "Get (JSObject c ps hs) k =
     (case map_of ps k of
        Some v \<Rightarrow> v
      | None \<Rightarrow> (case map_of hs k of Some v \<Rightarrow> v | None \<Rightarrow> JSUndefined))"
| "Get _ k = JSUndefined"

text \<open>\<open>info[i]\<close>: an argument that was not passed reads as \<open>undefined\<close>.\<close>

definition info_at :: "jsval list \<Rightarrow> nat \<Rightarrow> jsval" where
  "info_at info i = (if i < length info then info ! i else JSUndefined)"

section \<open>C strings and buffers\<close>

abbreviation NUL :: char where
  "NUL \<equiv> CHR 0x00"

text \<open>What a reader of a \<open>char *\<close> sees: the bytes before the first 0.\<close>

definition c_str :: "string \<Rightarrow> string" where
  "c_str buf = takeWhile (\<lambda>c. c \<noteq> NUL) buf"

text \<open>\<open>strcmp(a, b) == 0\<close>.\<close>

definition strcmp_eq0 :: "string \<Rightarrow> string \<Rightarrow> bool" where
  "strcmp_eq0 a b = (c_str a = c_str b)"

text \<open>\<open>*str\<close> of a \<open>Utf8String\<close>: the bytes followed by the terminator.\<close>

definition Utf8String_buf :: "string \<Rightarrow> string" where
  "Utf8String_buf s = s @ [NUL]"

definition calloc_chars :: "nat \<Rightarrow> string" where
  "calloc_chars n = replicate n NUL"

text \<open>\<open>memcpy(dst + off, src, n)\<close> on buffer contents.\<close>

definition memcpy :: "string \<Rightarrow> nat \<Rightarrow> string \<Rightarrow> nat \<Rightarrow> string" where
  "memcpy dst off src n = take off dst @ take n src @ drop (off + n) dst"

text \<open>
  Modelled from the spec: the macro \<open>GRPC_ARG_PRIMARY_USER_AGENT_STRING\<close> is declared in the
  grpc headers, which are not part of the sources; the spec's end-to-end scenario names the
  identification key \<open>grpc.primary_user_agent\<close>.
\<close>

definition GRPC_ARG_PRIMARY_USER_AGENT_STRING :: string where
  "GRPC_ARG_PRIMARY_USER_AGENT_STRING = ''grpc.primary_user_agent''"

text \<open>
  \<open>static const char grpc_node_user_agent[] = "grpc-node/" GRPC_NODE_VERSION\<close>: the array
  with its trailing 0, so that \<open>sizeof\<close> is its length. The build macro
  \<open>GRPC_NODE_VERSION\<close> is the parameter \<open>ver\<close>.
\<close>

definition grpc_node_user_agent :: "string \<Rightarrow> string" where
  "grpc_node_user_agent ver = ''grpc-node/'' @ ver @ [NUL]"

section \<open>Native memory\<close>

type_synonym addr = nat

datatype grpc_arg_type = GRPC_ARG_STRING | GRPC_ARG_INTEGER | GRPC_ARG_POINTER

text \<open>
  \<open>grpc_arg\<close>: the union \<open>value\<close> is kept as its two members; the code writes one member per
  entry and reads \<open>value.string\<close> only under the tag \<open>GRPC_ARG_STRING\<close>. \<open>None\<close> is the null
  pointer.
\<close>

record grpc_arg =
  arg_type :: grpc_arg_type
  arg_key :: "addr option"
  arg_value_string :: "addr option"
  arg_value_integer :: "32 word"

text \<open>An entry as \<open>calloc\<close> leaves it: all bytes zero.\<close>

definition zero_arg :: grpc_arg where
  "zero_arg = \<lparr>arg_type = GRPC_ARG_STRING, arg_key = None, arg_value_string = None,
     arg_value_integer = 0\<rparr>"

text \<open>
  An allocated block: a character buffer, an array of \<open>grpc_arg\<close>, a \<open>grpc_channel_args\<close>
  struct (\<open>num_args\<close>, \<open>args\<close>), the data of a slice, or a heap-allocated \<open>grpc_slice\<close>
  holding a slice.
\<close>

datatype block =
    Chars string
  | ArgArray "grpc_arg list"
  | ArgsStruct nat "addr option"
  | SliceData string
  | SliceHolder "addr option"

text \<open>
  The allocator hands out fresh addresses. \<open>faulted\<close> records undefined behaviour: a
  \<open>free\<close> of a pointer that is neither null nor live, or an access outside a live block.
\<close>

record heap =
  blocks :: "addr \<Rightarrow> block option"
  next_addr :: addr
  faulted :: bool

definition alloc :: "block \<Rightarrow> heap \<Rightarrow> addr \<times> heap" where
  "alloc b h =
     (next_addr h,
      h\<lparr>blocks := (blocks h)(next_addr h \<mapsto> b), next_addr := Suc (next_addr h)\<rparr>)"

definition free :: "addr option \<Rightarrow> heap \<Rightarrow> heap" where
  "free p h =
     (case p of
        None \<Rightarrow> h
      | Some a \<Rightarrow>
          (if blocks h a = None then h\<lparr>faulted := True\<rparr>
           else h\<lparr>blocks := (blocks h)(a := None)\<rparr>))"

text \<open>\<open>arr[i] = f(arr[i])\<close> for an array of \<open>grpc_arg\<close> at address \<open>arr\<close>.\<close>

definition update_arg :: "addr \<Rightarrow> nat \<Rightarrow> (grpc_arg \<Rightarrow> grpc_arg) \<Rightarrow> heap \<Rightarrow> heap" where
  "update_arg arr i f h =
     (case blocks h arr of
        Some (ArgArray xs) \<Rightarrow>
          (if i < length xs then h\<lparr>blocks := (blocks h)(arr \<mapsto> ArgArray (xs[i := f (xs ! i)]))\<rparr>
           else h\<lparr>faulted := True\<rparr>)
      | _ \<Rightarrow> h\<lparr>faulted := True\<rparr>)"

definition read_arg :: "addr \<Rightarrow> nat \<Rightarrow> heap \<Rightarrow> grpc_arg option" where
  "read_arg arr i h =
     (case blocks h arr of
        Some (ArgArray xs) \<Rightarrow> (if i < length xs then Some (xs ! i) else None)
      | _ \<Rightarrow> None)"

text \<open>No live block lies at or beyond the next address to be handed out.\<close>

definition wf_heap :: "heap \<Rightarrow> bool" where
  "wf_heap h = (\<forall>a. next_addr h \<le> a \<longrightarrow> blocks h a = None)"

section \<open>The argument encoder\<close>

text \<open>\<open>PopulateUserAgentChannelArg(&args[i])\<close>.\<close>

definition PopulateUserAgentChannelArg :: "string \<Rightarrow> addr \<Rightarrow> nat \<Rightarrow> heap \<Rightarrow> heap" where
  "PopulateUserAgentChannelArg ver arr i h =
     (let key_len = length (Utf8String_buf GRPC_ARG_PRIMARY_USER_AGENT_STRING);
          val_len = length (grpc_node_user_agent ver);
          (k, h1) = alloc (Chars (memcpy (calloc_chars key_len) 0
                       (Utf8String_buf GRPC_ARG_PRIMARY_USER_AGENT_STRING) key_len)) h;
          h2 = update_arg arr i (\<lambda>a. a\<lparr>arg_key := Some k\<rparr>) h1;
          h3 = update_arg arr i (\<lambda>a. a\<lparr>arg_type := GRPC_ARG_STRING\<rparr>) h2;
          (v, h4) = alloc (Chars (memcpy (calloc_chars val_len) 0
                       (grpc_node_user_agent ver) val_len)) h3
      in update_arg arr i (\<lambda>a. a\<lparr>arg_value_string := Some v\<rparr>) h4)"

text \<open>
  The buffer for a string value under the identification key: the user's bytes, a space,
  then the identification array with its terminator.
\<close>

definition user_agent_value_buf :: "string \<Rightarrow> string \<Rightarrow> string" where
  "user_agent_value_buf ver val_str =
     (let val_str_len = length val_str;
          user_agent_len = length (grpc_node_user_agent ver);
          b0 = calloc_chars (val_str_len + user_agent_len + 1);
          b1 = memcpy b0 0 (Utf8String_buf val_str) (length val_str);
          b2 = b1[val_str_len := CHR '' '']
      in memcpy b2 (val_str_len + 1) (grpc_node_user_agent ver) user_agent_len)"

definition plain_value_buf :: "string \<Rightarrow> string" where
  "plain_value_buf val_str =
     memcpy (calloc_chars (length val_str + 1)) 0 (Utf8String_buf val_str) (length val_str + 1)"

definition key_buf :: "string \<Rightarrow> string" where
  "key_buf key_str =
     memcpy (calloc_chars (length key_str + 1)) 0 (Utf8String_buf key_str) (length key_str + 1)"

text \<open>
  One iteration of the \<open>for\<close> loop of \<open>ParseChannelArgs\<close> (lines 100 to 144) for the key
  \<open>key_str\<close> at index \<open>i\<close>; \<open>False\<close> is the early \<open>return false\<close>. The names returned by
  \<open>GetOwnPropertyNames\<close> always convert to strings, so the exit at line 104 is not taken.
\<close>

definition parse_entry :: "string \<Rightarrow> jsval \<Rightarrow> addr \<Rightarrow> string \<Rightarrow> nat \<Rightarrow> heap \<Rightarrow> bool \<times> heap" where
  "parse_entry ver args_hash arr key_str i h =
     (let val = Get args_hash key_str in
      if IsInt32 val then
        (let h1 = update_arg arr i (\<lambda>a. a\<lparr>arg_type := GRPC_ARG_INTEGER\<rparr>) h;
             h2 = update_arg arr i (\<lambda>a. a\<lparr>arg_value_integer := To_int32 val\<rparr>) h1;
             (k, h3) = alloc (Chars (key_buf key_str)) h2
         in (True, update_arg arr i (\<lambda>a. a\<lparr>arg_key := Some k\<rparr>) h3))
      else if IsString val then
        (let val_str = Utf8String val;
             h1 = update_arg arr i (\<lambda>a. a\<lparr>arg_type := GRPC_ARG_STRING\<rparr>) h;
             (v, h2) =
               (if strcmp_eq0 (Utf8String_buf key_str)
                     (Utf8String_buf GRPC_ARG_PRIMARY_USER_AGENT_STRING)
                then alloc (Chars (user_agent_value_buf ver val_str)) h1
                else alloc (Chars (plain_value_buf val_str)) h1);
             h3 = update_arg arr i (\<lambda>a. a\<lparr>arg_value_string := Some v\<rparr>) h2;
             (k, h4) = alloc (Chars (key_buf key_str)) h3
         in (True, update_arg arr i (\<lambda>a. a\<lparr>arg_key := Some k\<rparr>) h4))
      else (False, h))"

fun parse_loop :: "string \<Rightarrow> jsval \<Rightarrow> addr \<Rightarrow> string list \<Rightarrow> nat \<Rightarrow> heap \<Rightarrow> bool \<times> heap" where
  "parse_loop ver args_hash arr [] i h = (True, h)"
| "parse_loop ver args_hash arr (key_str # keys) i h =
     (case parse_entry ver args_hash arr key_str i h of
        (False, h') \<Rightarrow> (False, h')
      | (True, h') \<Rightarrow> parse_loop ver args_hash arr keys (Suc i) h')"

text \<open>
  \<open>ParseChannelArgs(args_val, &channel_args_ptr)\<close>: the result, the pointer stored in
  \<open>*channel_args_ptr\<close>, and the memory afterwards.
\<close>

definition ParseChannelArgs :: "string \<Rightarrow> jsval \<Rightarrow> heap \<Rightarrow> bool \<times> addr option \<times> heap" where
  "ParseChannelArgs ver args_val0 h =
     (let args_val =
            (if IsUndefined args_val0 \<or> IsNull args_val0 then JSObject PlainObject [] []
             else args_val0)
      in
      if \<not> IsObject args_val then (False, None, h)
      else
        (let (channel_args, h1) = alloc (ArgsStruct 0 None) h;
             keys = GetOwnPropertyNames args_val;
             has_user_agent_arg = HasOwnProperty args_val GRPC_ARG_PRIMARY_USER_AGENT_STRING;
             num_args = (if \<not> has_user_agent_arg then length keys + 1 else length keys);
             (arr, h2) = alloc (ArgArray (replicate num_args zero_arg)) h1;
             h3 = h2\<lparr>blocks := (blocks h2)(channel_args \<mapsto> ArgsStruct num_args (Some arr))\<rparr>
         in
         case parse_loop ver args_val arr keys 0 h3 of
           (False, h4) \<Rightarrow> (False, Some channel_args, h4)
         | (True, h4) \<Rightarrow>
             (if \<not> has_user_agent_arg
              then (True, Some channel_args,
                      PopulateUserAgentChannelArg ver arr (num_args - 1) h4)
              else (True, Some channel_args, h4))))"

text \<open>The \<open>for\<close> loop of \<open>DeallocateChannelArgs\<close>, from index \<open>i\<close>.\<close>

function dealloc_loop :: "addr \<Rightarrow> nat \<Rightarrow> nat \<Rightarrow> heap \<Rightarrow> heap" where
  "dealloc_loop arr num_args i h =
     (if i < num_args then
        (case read_arg arr i h of
           None \<Rightarrow> h\<lparr>faulted := True\<rparr>
         | Some a \<Rightarrow>
             (case arg_key a of
                None \<Rightarrow> h
              | Some k \<Rightarrow>
                  (let h1 = free (Some k) h;
                       h2 = (if arg_type a = GRPC_ARG_STRING then free (arg_value_string a) h1
                             else h1)
                   in dealloc_loop arr num_args (Suc i) h2)))
      else h)"
  by pat_completeness auto
termination
  by (relation "measure (\<lambda>(arr, num_args, i, h). num_args - i)") auto

definition DeallocateChannelArgs :: "addr option \<Rightarrow> heap \<Rightarrow> heap" where
  "DeallocateChannelArgs channel_args h =
     (case channel_args of
        None \<Rightarrow> h
      | Some ca \<Rightarrow>
          (case blocks h ca of
             Some (ArgsStruct num_args args) \<Rightarrow>
               (case args of
                  None \<Rightarrow> h\<lparr>faulted := True\<rparr>
                | Some arr \<Rightarrow>
                    (let h1 = dealloc_loop arr num_args 0 h;
                         h2 = free (Some arr) h1
                     in free (Some ca) h2))
           | _ \<Rightarrow> h\<lparr>faulted := True\<rparr>))"

declare dealloc_loop.simps [simp del]

section \<open>Reading an argument list\<close>

text \<open>
  What the transport engine finds in a \<open>grpc_arg\<close>: the key buffer and, by the tag, the
  integer or the value buffer. The buffers are given whole, terminator included.
\<close>

datatype arg_view = IntegerArg string "32 word" | StringArg string string

definition decode_arg :: "heap \<Rightarrow> grpc_arg \<Rightarrow> arg_view option" where
  "decode_arg h a =
     (case arg_key a of
        None \<Rightarrow> None
      | Some k \<Rightarrow>
          (case blocks h k of
             Some (Chars kb) \<Rightarrow>
               (case arg_type a of
                  GRPC_ARG_INTEGER \<Rightarrow> Some (IntegerArg kb (arg_value_integer a))
                | GRPC_ARG_STRING \<Rightarrow>
                    (case arg_value_string a of
                       None \<Rightarrow> None
                     | Some v \<Rightarrow>
                         (case blocks h v of
                            Some (Chars vb) \<Rightarrow> Some (StringArg kb vb)
                          | _ \<Rightarrow> None))
                | GRPC_ARG_POINTER \<Rightarrow> None)
           | _ \<Rightarrow> None))"

text \<open>
  The entries \<open>args[0 .. num_args - 1]\<close> of a \<open>grpc_channel_args\<close>, when every one of them is
  populated.
\<close>

definition inspect_args :: "addr option \<Rightarrow> heap \<Rightarrow> arg_view list option" where
  "inspect_args channel_args h =
     (case channel_args of
        None \<Rightarrow> None
      | Some ca \<Rightarrow>
          (case blocks h ca of
             Some (ArgsStruct num_args (Some arr)) \<Rightarrow>
               (case blocks h arr of
                  Some (ArgArray xs) \<Rightarrow>
                    (if num_args \<le> length xs then those (map (decode_arg h) (take num_args xs))
                     else None)
                | _ \<Rightarrow> None)
           | _ \<Rightarrow> None))"

section \<open>The Channel object and its methods\<close>

datatype js_error = TypeError string | Error string

text \<open>
  The calls into the grpc core and the completion queue, in the order they are made.
  A channel creation is recorded with the argument list as it stands at the call.
\<close>

datatype event =
    InsecureChannelCreate string "arg_view list option"
  | SecureChannelCreate nat string "arg_view list option"
  | ChannelDestroy nat
  | ChannelGetTarget nat
  | ChannelCheckConnectivityState nat int
  | ChannelWatchConnectivityState nat "32 word" jsval jsval
  | CompletionQueueNext
  | ChannelCreateCall nat "nat option" "32 word" addr "addr option" jsval

text \<open>
  What lies outside channel.cc: the values the grpc core returns, \<open>Call::WrapStruct\<close> of
  call.cc and the header constant \<open>GRPC_PROPAGATE_DEFAULTS\<close>. \<open>None\<close> is a null handle.
\<close>

record native =
  channel_create_result :: "nat option"
  get_target_result :: string
  check_connectivity_state_result :: int
  create_call_result :: "nat option"
  WrapStruct :: "nat option \<Rightarrow> jsval"
  GRPC_PROPAGATE_DEFAULTS :: "32 word"

text \<open>
  The state: native memory, the field \<open>wrapped_channel\<close> of every C++ \<open>Channel\<close> object
  (by the number its JavaScript object carries), and the native calls made so far.
\<close>

record world =
  mem :: heap
  wrapped_channel :: "nat \<Rightarrow> nat option"
  next_channel :: nat
  trace :: "event list"

fun Channel_HasInstance :: "jsval \<Rightarrow> bool" where
  "Channel_HasInstance (JSObject (ChannelObject ch) ps hs) = True"
| "Channel_HasInstance _ = False"

fun Unwrap_Channel :: "jsval \<Rightarrow> nat" where
  "Unwrap_Channel (JSObject (ChannelObject ch) ps hs) = ch"
| "Unwrap_Channel _ = 0"

fun ChannelCredentials_HasInstance :: "jsval \<Rightarrow> bool" where
  "ChannelCredentials_HasInstance (JSObject (ChannelCredentialsObject creds) ps hs) = True"
| "ChannelCredentials_HasInstance _ = False"

fun GetWrappedCredentials :: "jsval \<Rightarrow> nat option" where
  "GetWrappedCredentials (JSObject (ChannelCredentialsObject creds) ps hs) = creds"
| "GetWrappedCredentials _ = None"

fun Call_HasInstance :: "jsval \<Rightarrow> bool" where
  "Call_HasInstance (JSObject (CallObject call) ps hs) = True"
| "Call_HasInstance _ = False"

fun GetWrappedCall :: "jsval \<Rightarrow> nat option" where
  "GetWrappedCall (JSObject (CallObject call) ps hs) = call"
| "GetWrappedCall _ = None"

text \<open>\<open>Channel::~Channel\<close> for the C++ object \<open>ch\<close>.\<close>

definition Channel_destructor :: "nat \<Rightarrow> world \<Rightarrow> world" where
  "Channel_destructor ch w =
     (case wrapped_channel w ch of
        Some c \<Rightarrow> w\<lparr>trace := trace w @ [ChannelDestroy c]\<rparr>
      | None \<Rightarrow> w)"

text \<open>The construct-call branch of \<open>Channel::New\<close> (lines 208 to 241).\<close>

definition Channel_construct ::
  "string \<Rightarrow> native \<Rightarrow> jsval list \<Rightarrow> world \<Rightarrow> (js_error + jsval) \<times> world" where
  "Channel_construct ver core info w =
     (if \<not> IsString (info_at info 0) then
        (Inl (TypeError ''Channel expects a string, a credential and an object''), w)
      else
        (let host = Utf8String (info_at info 0) in
         if \<not> ChannelCredentials_HasInstance (info_at info 1) then
           (Inl (TypeError ''Channel's second argument must be a ChannelCredentials''), w)
         else
           (let creds = GetWrappedCredentials (info_at info 1);
                (ok, channel_args_ptr, m1) = ParseChannelArgs ver (info_at info 2) (mem w)
            in
            if \<not> ok then
              (Inl (TypeError
                 ''Channel options must be an object with string keys and integer or string values''),
               w\<lparr>mem := DeallocateChannelArgs channel_args_ptr m1\<rparr>)
            else
              (let call =
                     (case creds of
                        None \<Rightarrow> InsecureChannelCreate host (inspect_args channel_args_ptr m1)
                      | Some c \<Rightarrow> SecureChannelCreate c host (inspect_args channel_args_ptr m1));
                   wrapped = channel_create_result core;
                   m2 = DeallocateChannelArgs channel_args_ptr m1;
                   ch = next_channel w
               in (Inr (JSObject (ChannelObject ch) [] []),
                   w\<lparr>mem := m2,
                     wrapped_channel := (wrapped_channel w)(ch := wrapped),
                     next_channel := Suc ch,
                     trace := trace w @ [call]\<rparr>)))))"

text \<open>
  \<open>Channel::New\<close>: called as a plain function it constructs an instance from its first three
  arguments and returns it, or leaves the exception of that construction pending.
\<close>

definition Channel_New ::
  "string \<Rightarrow> native \<Rightarrow> bool \<Rightarrow> jsval list \<Rightarrow> world \<Rightarrow> (js_error + jsval) \<times> world" where
  "Channel_New ver core is_construct_call info w =
     (if is_construct_call then Channel_construct ver core info w
      else Channel_construct ver core [info_at info 0, info_at info 1, info_at info 2] w)"

definition Channel_Close :: "jsval \<Rightarrow> jsval list \<Rightarrow> world \<Rightarrow> (js_error + jsval) \<times> world" where
  "Channel_Close this info w =
     (if \<not> Channel_HasInstance this then
        (Inl (TypeError ''close can only be called on Channel objects''), w)
      else
        (let ch = Unwrap_Channel this in
         case wrapped_channel w ch of
           Some c \<Rightarrow>
             (Inr JSUndefined,
              w\<lparr>wrapped_channel := (wrapped_channel w)(ch := None),
                trace := trace w @ [ChannelDestroy c]\<rparr>)
         | None \<Rightarrow> (Inr JSUndefined, w)))"

definition Channel_GetTarget ::
  "native \<Rightarrow> jsval \<Rightarrow> jsval list \<Rightarrow> world \<Rightarrow> (js_error + jsval) \<times> world" where
  "Channel_GetTarget core this info w =
     (if \<not> Channel_HasInstance this then
        (Inl (TypeError ''getTarget can only be called on Channel objects''), w)
      else
        (case wrapped_channel w (Unwrap_Channel this) of
           None \<Rightarrow> (Inl (Error ''Cannot call getTarget on a closed Channel''), w)
         | Some c \<Rightarrow>
             (Inr (JSString (get_target_result core)),
              w\<lparr>trace := trace w @ [ChannelGetTarget c]\<rparr>)))"

definition Channel_GetConnectivityState ::
  "native \<Rightarrow> jsval \<Rightarrow> jsval list \<Rightarrow> world \<Rightarrow> (js_error + jsval) \<times> world" where
  "Channel_GetConnectivityState core this info w =
     (if \<not> Channel_HasInstance this then
        (Inl (TypeError ''getConnectivityState can only be called on Channel objects''), w)
      else
        (case wrapped_channel w (Unwrap_Channel this) of
           None \<Rightarrow> (Inl (Error ''Cannot call getConnectivityState on a closed Channel''), w)
         | Some c \<Rightarrow>
             (let try_to_connect = (if StrictEquals_True (info_at info 0) then 1 else 0)
              in (Inr (JSNumber (Integral (check_connectivity_state_result core))),
                  w\<lparr>trace := trace w @ [ChannelCheckConnectivityState c try_to_connect]\<rparr>))))"

definition Channel_WatchConnectivityState ::
  "jsval \<Rightarrow> jsval list \<Rightarrow> world \<Rightarrow> (js_error + jsval) \<times> world" where
  "Channel_WatchConnectivityState this info w =
     (if \<not> Channel_HasInstance this then
        (Inl (TypeError ''watchConnectivityState can only be called on Channel objects''), w)
      else if \<not> IsUint32 (info_at info 0) then
        (Inl (TypeError ''watchConnectivityState's first argument must be a channel state''), w)
      else if \<not> (IsNumber (info_at info 1) \<or> IsDate (info_at info 1)) then
        (Inl (TypeError ''watchConnectivityState's second argument must be a date or a number''),
         w)
      else if \<not> IsFunction (info_at info 2) then
        (Inl (TypeError ''watchConnectivityState's third argument must be a callback''), w)
      else
        (case wrapped_channel w (Unwrap_Channel this) of
           None \<Rightarrow> (Inl (Error ''Cannot call watchConnectivityState on a closed Channel''), w)
         | Some c \<Rightarrow>
             (let last_state = To_uint32 (info_at info 0);
                  deadline = info_at info 1;
                  callback_func = info_at info 2
              in (Inr JSUndefined,
                  w\<lparr>trace := trace w @
                      [ChannelWatchConnectivityState c last_state deadline callback_func,
                       CompletionQueueNext]\<rparr>))))"

text \<open>
  \<open>CreateSliceFromString\<close> (slice.cc) and \<open>grpc_slice_unref\<close> (grpc core) are not part of the
  sources: a slice is taken to be a fresh native object holding the bytes of the string, and
  \<open>grpc_slice_unref\<close> gives up the reference that the creation returned, which releases it.
\<close>

definition CreateSliceFromString :: "jsval \<Rightarrow> heap \<Rightarrow> addr \<times> heap" where
  "CreateSliceFromString v h = alloc (SliceData (Utf8String v)) h"

definition grpc_slice_unref :: "addr \<Rightarrow> heap \<Rightarrow> heap" where
  "grpc_slice_unref s h = free (Some s) h"

definition Channel_CreateCall ::
  "native \<Rightarrow> jsval \<Rightarrow> jsval list \<Rightarrow> world \<Rightarrow> (js_error + jsval) \<times> world" where
  "Channel_CreateCall core this info w =
     (if \<not> Channel_HasInstance this then
        (Inl (TypeError ''createCall can only be called on Channel objects''), w)
      else if \<not> IsString (info_at info 0) then
        (Inl (TypeError ''createCall's first argument must be a string''), w)
      else if \<not> (IsNumber (info_at info 1) \<or> IsDate (info_at info 1)) then
        (Inl (TypeError ''createcall's second argument must be a date or a number''), w)
      else if \<not> Call_HasInstance (info_at info 3) \<and>
              \<not> (IsUndefined (info_at info 3) \<or> IsNull (info_at info 3)) then
        (Inl (TypeError ''createCall's fourth argument must be another call, if provided''), w)
      else
        (let parent_call =
               (if Call_HasInstance (info_at info 3) then GetWrappedCall (info_at info 3)
                else None)
         in
         if \<not> IsUint32 (info_at info 4) \<and>
            \<not> (IsUndefined (info_at info 4) \<or> IsNull (info_at info 4)) then
           (Inl (TypeError ''createCall's fifth argument must be propagate flags, if provided''),
            w)
         else
           (let propagate_flags =
                  (if IsUint32 (info_at info 4) then To_uint32 (info_at info 4)
                   else GRPC_PROPAGATE_DEFAULTS core)
            in
            case wrapped_channel w (Unwrap_Channel this) of
              None \<Rightarrow> (Inl (Error ''Cannot createCall with a closed Channel''), w)
            | Some c \<Rightarrow>
                (let (method, m1) = CreateSliceFromString (info_at info 0) (mem w);
                     deadline = info_at info 1
                 in
                 if IsString (info_at info 2) then
                   (let (host, m2) = alloc (SliceHolder None) m1;
                        (host_slice, m3) = CreateSliceFromString (info_at info 2) m2;
                        m4 = m3\<lparr>blocks := (blocks m3)(host \<mapsto> SliceHolder (Some host_slice))\<rparr>;
                        wrapped_call = create_call_result core;
                        m5 = free (Some host) m4;
                        m6 = grpc_slice_unref method m5
                    in (Inr (WrapStruct core wrapped_call),
                        w\<lparr>mem := m6,
                          trace := trace w @
                            [ChannelCreateCall c parent_call propagate_flags method (Some host)
                               deadline]\<rparr>))
                 else if IsUndefined (info_at info 2) \<or> IsNull (info_at info 2) then
                   (let wrapped_call = create_call_result core;
                        m2 = grpc_slice_unref method m1
                    in (Inr (WrapStruct core wrapped_call),
                        w\<lparr>mem := m2,
                          trace := trace w @
                            [ChannelCreateCall c parent_call propagate_flags method None
                               deadline]\<rparr>))
                 else
                   (Inl (TypeError ''createCall's third argument must be a string''),
                    w\<lparr>mem := m1\<rparr>)))))"

section \<open>The encoding as the specification words it\<close>

text \<open>
  A value is accepted when it is a 32-bit signed integer or a string (lines 107 and 110).
\<close>

definition accepted :: "jsval \<Rightarrow> bool" where
  "accepted v = (IsInt32 v \<or> IsString v)"

text \<open>
  The entry that the specification asks for a user key \<open>k\<close> with an accepted value \<open>v\<close>:
  the key; an integer by value; a string copied, and under a key that \<open>strcmp\<close> finds equal
  to the identification key the user's string, one space and the identification string.
\<close>

definition encode_entry :: "string \<Rightarrow> string \<Rightarrow> jsval \<Rightarrow> arg_view" where
  "encode_entry ver k v =
     (if IsInt32 v then IntegerArg (k @ [NUL]) (To_int32 v)
      else if strcmp_eq0 (k @ [NUL]) (GRPC_ARG_PRIMARY_USER_AGENT_STRING @ [NUL])
        then StringArg (k @ [NUL]) (Utf8String v @ '' '' @ ''grpc-node/'' @ ver @ [NUL])
        else StringArg (k @ [NUL]) (Utf8String v @ [NUL]))"

text \<open>The identification entry added when the user gave none.\<close>

definition user_agent_view :: "string \<Rightarrow> arg_view" where
  "user_agent_view ver =
     StringArg (GRPC_ARG_PRIMARY_USER_AGENT_STRING @ [NUL]) (''grpc-node/'' @ ver @ [NUL])"

text \<open>
  The entries populated by one encoding pass over an object: those of the keys before the
  first value that is not accepted, and the identification entry when the pass reaches the
  end and the object has no own property named by the identification key.
\<close>

definition encoded_args :: "string \<Rightarrow> jsval \<Rightarrow> arg_view list" where
  "encoded_args ver obj =
     (let keys = GetOwnPropertyNames obj;
          good = takeWhile (\<lambda>k. accepted (Get obj k)) keys
      in map (\<lambda>k. encode_entry ver k (Get obj k)) good @
         (if length good = length keys \<and> \<not> HasOwnProperty obj GRPC_ARG_PRIMARY_USER_AGENT_STRING
          then [user_agent_view ver] else []))"

definition num_args_of :: "jsval \<Rightarrow> nat" where
  "num_args_of obj =
     (if \<not> HasOwnProperty obj GRPC_ARG_PRIMARY_USER_AGENT_STRING
      then length (GetOwnPropertyNames obj) + 1 else length (GetOwnPropertyNames obj))"

text \<open>
  Modelled from the spec: the enum \<open>grpc_connectivity_state\<close> is declared in the grpc headers,
  which are not part of the sources; the glossary lists the states idle, connecting, ready,
  transient failure and shutdown, numbered from 0.
\<close>

definition is_connectivity_state :: "int \<Rightarrow> bool" where
  "is_connectivity_state n = (n \<in> {0, 1, 2, 3, 4})"

section \<open>Invariants of the encoder's memory\<close>

text \<open>The pointers that \<open>DeallocateChannelArgs\<close> frees for one entry.\<close>

fun ptr_list :: "addr option \<Rightarrow> addr list" where
  "ptr_list None = []"
| "ptr_list (Some p) = [p]"

definition arg_ptrs :: "grpc_arg \<Rightarrow> addr list" where
  "arg_ptrs a =
     (if arg_key a = None then []
      else ptr_list (arg_key a) @
           (if arg_type a = GRPC_ARG_STRING then ptr_list (arg_value_string a) else []))"

text \<open>Memory right after the struct and the zeroed array have been allocated.\<close>

definition start_heap :: "nat \<Rightarrow> heap \<Rightarrow> heap" where
  "start_heap num h =
     h\<lparr>next_addr := Suc (Suc (next_addr h)),
       blocks := (blocks h)(Suc (next_addr h) \<mapsto> ArgArray (replicate num zero_arg),
                   next_addr h \<mapsto> ArgsStruct num (Some (Suc (next_addr h))))\<rparr>"

text \<open>
  The state of the encoder between two entries, relative to the memory \<open>h0\<close> at the start of
  the loop: the array at \<open>arr\<close> holds the populated entries \<open>pop\<close> followed by zeroed ones;
  the buffers of the populated entries are exactly the blocks allocated since \<open>n0\<close>, each
  owned once; nothing else has changed; and the populated entries read as \<open>views\<close>.
\<close>

definition populated ::
  "addr \<Rightarrow> nat \<Rightarrow> addr \<Rightarrow> heap \<Rightarrow> heap \<Rightarrow> grpc_arg list \<Rightarrow> arg_view list \<Rightarrow> bool" where
  "populated arr num n0 h0 h pop views \<longleftrightarrow>
     length pop \<le> num \<and> arr < n0 \<and> n0 \<le> next_addr h \<and> wf_heap h \<and>
     blocks h arr = Some (ArgArray (pop @ replicate (num - length pop) zero_arg)) \<and>
     (\<forall>a\<in>set pop. arg_key a \<noteq> None) \<and>
     distinct (concat (map arg_ptrs pop)) \<and>
     set (concat (map arg_ptrs pop)) = {n0..<next_addr h} \<and>
     (\<forall>p. n0 \<le> p \<and> p < next_addr h \<longrightarrow> blocks h p \<noteq> None) \<and>
     (\<forall>p<n0. p \<noteq> arr \<longrightarrow> blocks h p = blocks h0 p) \<and>
     faulted h = faulted h0 \<and>
     map (decode_arg h) pop = map Some views"

text \<open>Memory with the blocks at the given addresses gone.\<close>

definition release :: "addr list \<Rightarrow> heap \<Rightarrow> heap" where
  "release ps h = h\<lparr>blocks := (\<lambda>p. if p \<in> set ps then None else blocks h p)\<rparr>"


section \<open>Concrete states for the examples\<close>

definition empty_heap :: heap where
  "empty_heap = \<lparr>blocks = (\<lambda>a. None), next_addr = 1, faulted = False\<rparr>"

text \<open>A world with one open channel, object 0 wrapping the native handle 7.\<close>

definition open_world :: world where
  "open_world = \<lparr>mem = empty_heap, wrapped_channel = (\<lambda>ch. None)(0 := Some 7),
     next_channel = 1, trace = []\<rparr>"

definition fresh_world :: world where
  "fresh_world = \<lparr>mem = empty_heap, wrapped_channel = (\<lambda>ch. None), next_channel = 0,
     trace = []\<rparr>"

definition test_core :: native where
  "test_core = \<lparr>channel_create_result = Some 7, get_target_result = ''localhost:0'',
     check_connectivity_state_result = 0, create_call_result = Some 9,
     WrapStruct = (\<lambda>c. JSObject (CallObject c) [] []), GRPC_PROPAGATE_DEFAULTS = 65535\<rparr>"

definition null_core :: native where
  "null_core = test_core\<lparr>channel_create_result := None\<rparr>"

text \<open>The world after \<open>close()\<close> on the channel of \<open>open_world\<close>.\<close>

definition closed_world :: world where
  "closed_world = snd (Channel_Close (JSObject (ChannelObject 0) [] []) [] open_world)"

text \<open>\<open>n\<close> calls of \<open>close()\<close> in a row.\<close>

fun close_times :: "nat \<Rightarrow> jsval \<Rightarrow> world \<Rightarrow> world" where
  "close_times 0 this w = w"
| "close_times (Suc n) this w = close_times n this (snd (Channel_Close this [] w))"

section \<open>Buffers\<close>

lemma user_agent_value_buf_eq: "user_agent_value_buf ver s = s @ '' '' @ grpc_node_user_agent ver"
proof -
  define L where "L = length (grpc_node_user_agent ver)"
  have b1: "memcpy (calloc_chars (length s + L + 1)) 0 (Utf8String_buf s) (length s)
              = s @ replicate (Suc L) NUL"
  proof -
    have r: "replicate (length s + L + 1) NUL = replicate (length s) NUL @ replicate (Suc L) NUL"
    proof -
      have "length s + L + 1 = length s + Suc L" by simp
      then show ?thesis by (simp only: replicate_add)
    qed
    show ?thesis
      unfolding memcpy_def calloc_chars_def Utf8String_buf_def r by simp
  qed
  have b2: "(s @ replicate (Suc L) NUL)[length s := CHR '' ''] = s @ CHR '' '' # replicate L NUL"
    by (simp add: list_update_append)
  have b3: "memcpy (s @ CHR '' '' # replicate L NUL) (length s + 1) (grpc_node_user_agent ver) L
              = s @ '' '' @ grpc_node_user_agent ver"
    by (simp add: memcpy_def L_def)
  show ?thesis
    unfolding user_agent_value_buf_def Let_def L_def [symmetric] b1 b2 b3 ..
qed

lemma plain_value_buf_eq: "plain_value_buf s = s @ [NUL]"
  by (simp add: plain_value_buf_def memcpy_def calloc_chars_def Utf8String_buf_def)

lemma key_buf_eq: "key_buf s = s @ [NUL]"
  by (simp add: key_buf_def memcpy_def calloc_chars_def Utf8String_buf_def)

section \<open>One entry of the encoder\<close>

lemma parse_entry_int:
  assumes "blocks h arr = Some (ArgArray xs)" "i < length xs" "arr \<noteq> next_addr h"
    and "IsInt32 (Get obj key)"
  shows "parse_entry ver obj arr key i h =
    (True, h\<lparr>blocks := (blocks h)(next_addr h \<mapsto> Chars (key @ [NUL]),
                 arr \<mapsto> ArgArray (xs[i := (xs ! i)\<lparr>arg_type := GRPC_ARG_INTEGER,
                    arg_value_integer := To_int32 (Get obj key),
                    arg_key := Some (next_addr h)\<rparr>])),
            next_addr := Suc (next_addr h)\<rparr>)"
  using assms
  by (simp add: parse_entry_def update_arg_def alloc_def key_buf_eq Let_def)

lemma parse_entry_string:
  assumes "blocks h arr = Some (ArgArray xs)" "i < length xs" "arr < next_addr h"
    and "\<not> IsInt32 (Get obj key)" "IsString (Get obj key)"
  shows "parse_entry ver obj arr key i h =
    (True, h\<lparr>blocks := (blocks h)(next_addr h \<mapsto> Chars
                   (if strcmp_eq0 (key @ [NUL]) (GRPC_ARG_PRIMARY_USER_AGENT_STRING @ [NUL])
                    then Utf8String (Get obj key) @ '' '' @ grpc_node_user_agent ver
                    else Utf8String (Get obj key) @ [NUL]),
                 Suc (next_addr h) \<mapsto> Chars (key @ [NUL]),
                 arr \<mapsto> ArgArray (xs[i := (xs ! i)\<lparr>arg_type := GRPC_ARG_STRING,
                    arg_value_string := Some (next_addr h),
                    arg_key := Some (Suc (next_addr h))\<rparr>])),
            next_addr := Suc (Suc (next_addr h))\<rparr>)"
  using assms
  by (simp add: parse_entry_def update_arg_def alloc_def key_buf_eq plain_value_buf_eq
      user_agent_value_buf_eq Utf8String_buf_def Let_def)

lemma parse_entry_reject:
  assumes "\<not> IsInt32 (Get obj key)" "\<not> IsString (Get obj key)"
  shows "parse_entry ver obj arr key i h = (False, h)"
  using assms by (simp add: parse_entry_def)

lemma parse_entry_ok: "fst (parse_entry ver obj arr k i h) = accepted (Get obj k)"
  by (simp add: parse_entry_def accepted_def Let_def case_prod_beta)

lemma PopulateUserAgentChannelArg_eq:
  assumes "blocks h arr = Some (ArgArray xs)" "i < length xs" "arr < next_addr h"
  shows "PopulateUserAgentChannelArg ver arr i h =
    h\<lparr>blocks := (blocks h)(next_addr h \<mapsto> Chars (GRPC_ARG_PRIMARY_USER_AGENT_STRING @ [NUL]),
                 Suc (next_addr h) \<mapsto> Chars (grpc_node_user_agent ver),
                 arr \<mapsto> ArgArray (xs[i := (xs ! i)\<lparr>arg_key := Some (next_addr h),
                    arg_type := GRPC_ARG_STRING,
                    arg_value_string := Some (Suc (next_addr h))\<rparr>])),
            next_addr := Suc (Suc (next_addr h))\<rparr>"
  using assms
  by (simp add: PopulateUserAgentChannelArg_def update_arg_def alloc_def memcpy_def
      calloc_chars_def Utf8String_buf_def Let_def)

lemma decode_arg_cong:
  assumes same: "\<And>p. p \<in> set (arg_ptrs a) \<Longrightarrow> blocks h' p = blocks h p"
  shows "decode_arg h' a = decode_arg h a"
proof (cases "arg_key a")
  case None
  then show ?thesis by (simp add: decode_arg_def)
next
  case (Some k)
  then have k: "blocks h' k = blocks h k"
    using same [of k] by (simp add: arg_ptrs_def)
  show ?thesis
  proof (cases "arg_type a = GRPC_ARG_STRING")
    case True
    have "blocks h' v = blocks h v" if "arg_value_string a = Some v" for v
      using same [of v] that True Some by (simp add: arg_ptrs_def)
    with True Some k show ?thesis
      by (simp add: decode_arg_def split: option.splits block.splits)
  next
    case False
    with Some k show ?thesis
      by (cases "arg_type a") (simp_all add: decode_arg_def split: option.splits block.splits)
  qed
qed

lemma zero_tail_update:
  "length pop < num \<Longrightarrow>
   (pop @ replicate (num - length pop) z)[length pop := e] =
   (pop @ [e]) @ replicate (num - length (pop @ [e])) z"
  by (cases "num - length pop") (simp_all add: list_update_append Suc_diff_Suc)

lemma zero_tail_nth:
  "length pop < num \<Longrightarrow> (pop @ replicate (num - length pop) z) ! length pop = z"
  by (simp add: nth_append)

lemma populated_array:
  "populated arr num n0 h0 h pop views \<Longrightarrow>
   blocks h arr = Some (ArgArray (pop @ replicate (num - length pop) zero_arg))"
  by (simp add: populated_def)

lemma populated_length: "populated arr num n0 h0 h pop views \<Longrightarrow> length pop = length views"
proof -
  assume "populated arr num n0 h0 h pop views"
  then have "map (decode_arg h) pop = map Some views" by (simp add: populated_def)
  then have "length (map (decode_arg h) pop) = length (map Some views)" by simp
  then show ?thesis by simp
qed

lemma populated_extend:
  assumes inv: "populated arr num n0 h0 h pop views"
    and lt: "length pop < num"
    and hd: "h' = h\<lparr>blocks := B, next_addr := n'\<rparr>"
    and arr: "B arr = Some (ArgArray ((pop @ [e]) @ replicate (num - length (pop @ [e])) zero_arg))"
    and keep: "\<And>p. p \<noteq> arr \<Longrightarrow> p < next_addr h \<Longrightarrow> B p = blocks h p"
    and beyond: "\<And>p. n' \<le> p \<Longrightarrow> B p = None"
    and fresh: "\<And>p. next_addr h \<le> p \<Longrightarrow> p < n' \<Longrightarrow> B p \<noteq> None"
    and key: "arg_key e \<noteq> None"
    and dist: "distinct (arg_ptrs e)"
    and ptrs: "set (arg_ptrs e) = {next_addr h..<n'}"
    and le: "next_addr h \<le> n'"
    and dec: "decode_arg h' e = Some view"
  shows "populated arr num n0 h0 h' (pop @ [e]) (views @ [view])"
proof -
  from inv have lt_arr: "arr < n0" and n0: "n0 \<le> next_addr h"
    and old_ptrs: "set (concat (map arg_ptrs pop)) = {n0..<next_addr h}"
    by (simp_all add: populated_def)
  have old: "blocks h' p = blocks h p" if "a \<in> set pop" "p \<in> set (arg_ptrs a)" for a p
  proof -
    from that have "p \<in> set (concat (map arg_ptrs pop))" by auto
    with old_ptrs have "n0 \<le> p \<and> p < next_addr h" by simp
    with lt_arr keep [of p] show ?thesis by (simp add: hd)
  qed
  have dec_old: "map (decode_arg h') pop = map (decode_arg h) pop"
    by (rule map_cong [OF refl]) (rule decode_arg_cong, rule old)
  show ?thesis
    unfolding populated_def
  proof (intro conjI)
    show "length (pop @ [e]) \<le> num" using lt by simp
    show "arr < n0" by (rule lt_arr)
    show "n0 \<le> next_addr h'" using n0 le by (simp add: hd)
    show "wf_heap h'" using beyond by (simp add: wf_heap_def hd)
    show "blocks h' arr = Some (ArgArray ((pop @ [e]) @ replicate (num - length (pop @ [e])) zero_arg))"
      using arr by (simp add: hd)
    show "\<forall>a\<in>set (pop @ [e]). arg_key a \<noteq> None"
      using inv key by (auto simp: populated_def)
    show "distinct (concat (map arg_ptrs (pop @ [e])))"
      using inv dist ptrs by (auto simp: populated_def)
    show "set (concat (map arg_ptrs (pop @ [e]))) = {n0..<next_addr h'}"
      using old_ptrs ptrs n0 le by (auto simp: hd)
    show "\<forall>p. n0 \<le> p \<and> p < next_addr h' \<longrightarrow> blocks h' p \<noteq> None"
    proof (intro allI impI)
      fix p assume p: "n0 \<le> p \<and> p < next_addr h'"
      show "blocks h' p \<noteq> None"
      proof (cases "p < next_addr h")
        case True
        with p lt_arr keep [of p] inv show ?thesis by (simp add: hd populated_def)
      next
        case False
        with p fresh [of p] show ?thesis by (simp add: hd)
      qed
    qed
    show "\<forall>p<n0. p \<noteq> arr \<longrightarrow> blocks h' p = blocks h0 p"
      using inv keep n0 by (simp add: hd populated_def)
    show "faulted h' = faulted h0" using inv by (simp add: hd populated_def)
    show "map (decode_arg h') (pop @ [e]) = map Some (views @ [view])"
      using inv dec_old dec by (simp add: populated_def)
  qed
qed

lemma populated_step_int:
  assumes inv: "populated arr num n0 h0 h pop views"
    and lt: "length pop < num"
    and ty: "IsInt32 (Get obj key)"
  shows "\<exists>e h'. parse_entry ver obj arr key (length pop) h = (True, h') \<and>
           populated arr num n0 h0 h' (pop @ [e]) (views @ [encode_entry ver key (Get obj key)])"
proof -
  let ?n = "next_addr h"
  let ?e = "zero_arg\<lparr>arg_type := GRPC_ARG_INTEGER,
                    arg_value_integer := To_int32 (Get obj key),
                    arg_key := Some ?n\<rparr>"
  let ?B = "(blocks h)(?n \<mapsto> Chars (key @ [NUL]),
                 arr \<mapsto> ArgArray ((pop @ [?e]) @ replicate (num - length (pop @ [?e])) zero_arg))"
  let ?h' = "h\<lparr>blocks := ?B, next_addr := Suc ?n\<rparr>"
  from inv have lt_arr: "arr < n0" and n0: "n0 \<le> ?n" and wf: "wf_heap h"
    by (simp_all add: populated_def)
  have run: "parse_entry ver obj arr key (length pop) h = (True, ?h')"
    using parse_entry_int [OF populated_array [OF inv] _ _ ty, of "length pop" ver] lt lt_arr n0
    by (simp add: zero_tail_update zero_tail_nth del: append_assoc)
  have "populated arr num n0 h0 ?h' (pop @ [?e]) (views @ [encode_entry ver key (Get obj key)])"
  proof (rule populated_extend [OF inv lt refl])
    show "decode_arg ?h' ?e = Some (encode_entry ver key (Get obj key))"
      using ty lt_arr n0 by (simp add: decode_arg_def encode_entry_def)
    show "?B p = None" if "Suc ?n \<le> p" for p
      using that wf lt_arr n0 by (simp add: wf_heap_def)
  qed (use lt_arr n0 in \<open>auto simp: arg_ptrs_def\<close>)
  with run show ?thesis by blast
qed

lemma populated_step_string:
  assumes inv: "populated arr num n0 h0 h pop views"
    and lt: "length pop < num"
    and ty: "\<not> IsInt32 (Get obj key)" "IsString (Get obj key)"
  shows "\<exists>e h'. parse_entry ver obj arr key (length pop) h = (True, h') \<and>
           populated arr num n0 h0 h' (pop @ [e]) (views @ [encode_entry ver key (Get obj key)])"
proof -
  let ?n = "next_addr h"
  let ?e = "zero_arg\<lparr>arg_type := GRPC_ARG_STRING,
                    arg_value_string := Some ?n,
                    arg_key := Some (Suc ?n)\<rparr>"
  let ?v = "Chars (if strcmp_eq0 (key @ [NUL]) (GRPC_ARG_PRIMARY_USER_AGENT_STRING @ [NUL])
                    then Utf8String (Get obj key) @ '' '' @ grpc_node_user_agent ver
                    else Utf8String (Get obj key) @ [NUL])"
  let ?B = "(blocks h)(?n \<mapsto> ?v, Suc ?n \<mapsto> Chars (key @ [NUL]),
                 arr \<mapsto> ArgArray ((pop @ [?e]) @ replicate (num - length (pop @ [?e])) zero_arg))"
  let ?h' = "h\<lparr>blocks := ?B, next_addr := Suc (Suc ?n)\<rparr>"
  from inv have lt_arr: "arr < n0" and n0: "n0 \<le> ?n" and wf: "wf_heap h"
    by (simp_all add: populated_def)
  have run: "parse_entry ver obj arr key (length pop) h = (True, ?h')"
    using parse_entry_string [OF populated_array [OF inv] _ _ ty, of "length pop" ver] lt lt_arr n0
    by (simp add: zero_tail_update zero_tail_nth del: append_assoc)
  have "populated arr num n0 h0 ?h' (pop @ [?e]) (views @ [encode_entry ver key (Get obj key)])"
  proof (rule populated_extend [OF inv lt refl])
    show "decode_arg ?h' ?e = Some (encode_entry ver key (Get obj key))"
      using ty lt_arr n0 by (simp add: decode_arg_def encode_entry_def grpc_node_user_agent_def)
    show "?B p = None" if "Suc (Suc ?n) \<le> p" for p
      using that wf lt_arr n0 by (simp add: wf_heap_def)
  qed (use lt_arr n0 in \<open>auto simp: arg_ptrs_def\<close>)
  with run show ?thesis by blast
qed

lemma populated_step_user_agent:
  assumes inv: "populated arr num n0 h0 h pop views"
    and lt: "length pop < num"
  shows "\<exists>e. populated arr num n0 h0 (PopulateUserAgentChannelArg ver arr (length pop) h)
           (pop @ [e]) (views @ [user_agent_view ver])"
proof -
  let ?n = "next_addr h"
  let ?e = "zero_arg\<lparr>arg_key := Some ?n, arg_type := GRPC_ARG_STRING,
                    arg_value_string := Some (Suc ?n)\<rparr>"
  let ?B = "(blocks h)(?n \<mapsto> Chars (GRPC_ARG_PRIMARY_USER_AGENT_STRING @ [NUL]),
                 Suc ?n \<mapsto> Chars (grpc_node_user_agent ver),
                 arr \<mapsto> ArgArray ((pop @ [?e]) @ replicate (num - length (pop @ [?e])) zero_arg))"
  let ?h' = "h\<lparr>blocks := ?B, next_addr := Suc (Suc ?n)\<rparr>"
  from inv have lt_arr: "arr < n0" and n0: "n0 \<le> ?n" and wf: "wf_heap h"
    by (simp_all add: populated_def)
  have run: "PopulateUserAgentChannelArg ver arr (length pop) h = ?h'"
    using PopulateUserAgentChannelArg_eq [OF populated_array [OF inv], of "length pop" ver]
      lt lt_arr n0
    by (simp add: zero_tail_update zero_tail_nth del: append_assoc)
  have "populated arr num n0 h0 ?h' (pop @ [?e]) (views @ [user_agent_view ver])"
  proof (rule populated_extend [OF inv lt refl])
    show "decode_arg ?h' ?e = Some (user_agent_view ver)"
      using lt_arr n0 by (simp add: decode_arg_def user_agent_view_def grpc_node_user_agent_def)
    show "?B p = None" if "Suc (Suc ?n) \<le> p" for p
      using that wf lt_arr n0 by (simp add: wf_heap_def)
  qed (use lt_arr n0 in \<open>auto simp: arg_ptrs_def\<close>)
  with run show ?thesis by auto
qed

section \<open>The encoder's loop\<close>

lemma takeWhile_all: "length (takeWhile P xs) = length xs \<longleftrightarrow> (\<forall>x\<in>set xs. P x)"
  by (induction xs) auto

lemma parse_loop_ok:
  "fst (parse_loop ver obj arr keys i h) = (\<forall>k\<in>set keys. accepted (Get obj k))"
proof (induction keys arbitrary: i h)
  case Nil
  show ?case by simp
next
  case (Cons k keys)
  show ?case
  proof (cases "accepted (Get obj k)")
    case False
    then show ?thesis by (simp add: accepted_def parse_entry_def)
  next
    case True
    then obtain h' where "parse_entry ver obj arr k i h = (True, h')"
      using parse_entry_ok [of ver obj arr k i h] by (cases "parse_entry ver obj arr k i h") simp
    with True Cons.IH [of "Suc i" h'] show ?thesis by simp
  qed
qed

lemma parse_loop_populated:
  assumes "populated arr num n0 h0 h pop views"
    and "length pop + length keys \<le> num"
  shows "\<exists>pop'. populated arr num n0 h0 (snd (parse_loop ver obj arr keys (length pop) h)) pop'
           (views @ map (\<lambda>k. encode_entry ver k (Get obj k)) (takeWhile (\<lambda>k. accepted (Get obj k)) keys))"
  using assms
proof (induction keys arbitrary: h pop views)
  case Nil
  then show ?case by auto
next
  case (Cons k keys)
  from Cons.prems have lt: "length pop < num" by simp
  show ?case
  proof (cases "accepted (Get obj k)")
    case False
    then have "parse_entry ver obj arr k (length pop) h = (False, h)"
      by (simp add: accepted_def parse_entry_reject)
    with False Cons.prems show ?thesis by auto
  next
    case True
    then obtain e h' where
      run: "parse_entry ver obj arr k (length pop) h = (True, h')" and
      inv': "populated arr num n0 h0 h' (pop @ [e]) (views @ [encode_entry ver k (Get obj k)])"
      using populated_step_int [OF Cons.prems(1) lt, of obj k ver]
        populated_step_string [OF Cons.prems(1) lt, of obj k ver]
      by (auto simp: accepted_def)
    have "length (pop @ [e]) + length keys \<le> num" using Cons.prems by simp
    from Cons.IH [OF inv' this] run True show ?thesis by simp
  qed
qed

lemma populated_start:
  "wf_heap h \<Longrightarrow>
   populated (Suc (next_addr h)) num (Suc (Suc (next_addr h))) (start_heap num h) (start_heap num h) [] []"
  by (auto simp: populated_def start_heap_def wf_heap_def)

lemma ParseChannelArgs_object:
  assumes wf: "wf_heap h" and obj: "obj = JSObject c ps hs"
  shows "\<exists>h' pop. ParseChannelArgs ver obj h =
            ((\<forall>k\<in>set (GetOwnPropertyNames obj). accepted (Get obj k)), Some (next_addr h), h') \<and>
          populated (Suc (next_addr h)) (num_args_of obj) (Suc (Suc (next_addr h)))
            (start_heap (num_args_of obj) h) h' pop (encoded_args ver obj)"
proof -
  let ?keys = "GetOwnPropertyNames obj"
  let ?num = "num_args_of obj"
  let ?n = "next_addr h"
  let ?h3 = "start_heap ?num h"
  let ?good = "takeWhile (\<lambda>k. accepted (Get obj k)) ?keys"
  let ?enc = "map (\<lambda>k. encode_entry ver k (Get obj k)) ?good"
  let ?ok = "\<forall>k\<in>set ?keys. accepted (Get obj k)"
  let ?r = "parse_loop ver obj (Suc ?n) ?keys 0 ?h3"
  have ok: "fst ?r = ?ok" by (rule parse_loop_ok)
  have "length ([]::grpc_arg list) + length ?keys \<le> ?num" by (simp add: num_args_of_def)
  from parse_loop_populated [OF populated_start [OF wf] this, of ver obj]
  obtain pop where pop: "populated (Suc ?n) ?num (Suc (Suc ?n)) ?h3 (snd ?r) pop ?enc"
    by auto
  have unfold: "ParseChannelArgs ver obj h =
      (if \<not> fst ?r then (False, Some ?n, snd ?r)
       else if \<not> HasOwnProperty obj GRPC_ARG_PRIMARY_USER_AGENT_STRING
         then (True, Some ?n, PopulateUserAgentChannelArg ver (Suc ?n) (?num - 1) (snd ?r))
         else (True, Some ?n, snd ?r))"
    by (auto simp: obj ParseChannelArgs_def alloc_def Let_def start_heap_def num_args_of_def
        split: prod.splits bool.splits)
  show ?thesis
  proof (cases ?ok)
    case False
    then have "length ?good \<noteq> length ?keys" by (simp add: takeWhile_all)
    then have "encoded_args ver obj = ?enc" by (simp add: encoded_args_def Let_def)
    with pop unfold ok False show ?thesis by auto
  next
    case True
    then have good: "length ?good = length ?keys" by (simp add: takeWhile_all)
    show ?thesis
    proof (cases "HasOwnProperty obj GRPC_ARG_PRIMARY_USER_AGENT_STRING")
      case has: True
      then have "encoded_args ver obj = ?enc" by (simp add: encoded_args_def Let_def)
      with pop unfold ok True has show ?thesis by auto
    next
      case has: False
      have len: "length pop = length ?keys"
        using populated_length [OF pop] good by simp
      then have lt: "length pop < ?num" and idx: "?num - 1 = length pop"
        using has by (simp_all add: num_args_of_def)
      have enc: "encoded_args ver obj = ?enc @ [user_agent_view ver]"
        using has good by (simp add: encoded_args_def Let_def)
      from populated_step_user_agent [OF pop lt, of ver] unfold ok True has idx enc
      show ?thesis by auto
    qed
  qed
qed

section \<open>Deallocation\<close>

lemma release_Nil: "release [] h = h"
  by (simp add: release_def)

lemma release_append: "release qs (release ps h) = release (ps @ qs) h"
  by (auto simp: release_def fun_eq_iff)

lemma free_entry:
  assumes "arg_key a = Some k" "distinct (arg_ptrs a)"
    and "\<forall>p\<in>set (arg_ptrs a). blocks h p \<noteq> None"
  shows "(let h1 = free (Some k) h
          in if arg_type a = GRPC_ARG_STRING then free (arg_value_string a) h1 else h1)
         = release (arg_ptrs a) h"
proof (cases "arg_type a = GRPC_ARG_STRING")
  case False
  with assms show ?thesis
    by (auto simp: arg_ptrs_def free_def release_def fun_eq_iff)
next
  case True
  show ?thesis
  proof (cases "arg_value_string a")
    case None
    with True assms show ?thesis
      by (auto simp: arg_ptrs_def free_def release_def fun_eq_iff)
  next
    case (Some v)
    with True assms have "v \<noteq> k" "blocks h v \<noteq> None" "blocks h k \<noteq> None"
      by (auto simp: arg_ptrs_def)
    with True Some assms(1) show ?thesis
      by (auto simp: arg_ptrs_def free_def release_def fun_eq_iff Let_def)
  qed
qed

lemma dealloc_loop_release:
  assumes "blocks h arr = Some (ArgArray (pre @ rest @ replicate m zero_arg))"
    and "num = length pre + length rest + m"
    and "\<forall>a\<in>set rest. arg_key a \<noteq> None"
    and "distinct (concat (map arg_ptrs rest))"
    and "\<forall>p\<in>set (concat (map arg_ptrs rest)). blocks h p \<noteq> None \<and> p \<noteq> arr"
  shows "dealloc_loop arr num (length pre) h = release (concat (map arg_ptrs rest)) h"
  using assms
proof (induction rest arbitrary: pre h)
  case Nil
  show ?case
  proof (cases m)
    case 0
    with Nil show ?thesis
      by (subst dealloc_loop.simps) (simp add: release_Nil)
  next
    case (Suc m')
    with Nil have "read_arg arr (length pre) h = Some zero_arg"
      by (simp add: read_arg_def nth_append)
    with Suc Nil show ?thesis
      by (subst dealloc_loop.simps) (simp add: release_Nil zero_arg_def)
  qed
next
  case (Cons a rest)
  from Cons.prems obtain k where k: "arg_key a = Some k" by auto
  have rd: "read_arg arr (length pre) h = Some a"
    using Cons.prems(1) by (simp add: read_arg_def nth_append)
  let ?h2 = "release (arg_ptrs a) h"
  have fe: "(let h1 = free (Some k) h
          in if arg_type a = GRPC_ARG_STRING then free (arg_value_string a) h1 else h1) = ?h2"
    using Cons.prems by (intro free_entry [OF k]) auto
  have step: "dealloc_loop arr num (length pre) h = dealloc_loop arr num (Suc (length pre)) ?h2"
    using rd k fe Cons.prems(2)
    by (subst dealloc_loop.simps) (simp add: Let_def)
  have arr': "blocks ?h2 arr = Some (ArgArray ((pre @ [a]) @ rest @ replicate m zero_arg))"
    using Cons.prems by (auto simp: release_def)
  have "dealloc_loop arr num (length (pre @ [a])) ?h2 = release (concat (map arg_ptrs rest)) ?h2"
  proof (rule Cons.IH [OF arr'])
    show "num = length (pre @ [a]) + length rest + m" using Cons.prems(2) by simp
    show "\<forall>a\<in>set rest. arg_key a \<noteq> None" using Cons.prems(3) by simp
    show "distinct (concat (map arg_ptrs rest))" using Cons.prems(4) by simp
    show "\<forall>p\<in>set (concat (map arg_ptrs rest)). blocks ?h2 p \<noteq> None \<and> p \<noteq> arr"
      using Cons.prems(4,5) by (auto simp: release_def)
  qed
  with step show ?case by (simp add: release_append)
qed

lemma populated_dealloc:
  assumes inv: "populated arr num n0 h0 h pop views"
  shows "dealloc_loop arr num 0 h =
           h\<lparr>blocks := (\<lambda>p. if n0 \<le> p \<and> p < next_addr h then None else blocks h p)\<rparr>"
proof -
  from inv have lt_arr: "arr < n0" and len: "length pop \<le> num"
    and ptrs: "set (concat (map arg_ptrs pop)) = {n0..<next_addr h}"
    by (simp_all add: populated_def)
  have "dealloc_loop arr num (length ([]::grpc_arg list)) h = release (concat (map arg_ptrs pop)) h"
  proof (rule dealloc_loop_release [where m = "num - length pop"])
    show "blocks h arr = Some (ArgArray ([] @ pop @ replicate (num - length pop) zero_arg))"
      using inv by (simp add: populated_def)
    show "\<forall>p\<in>set (concat (map arg_ptrs pop)). blocks h p \<noteq> None \<and> p \<noteq> arr"
      using inv lt_arr unfolding ptrs by (auto simp: populated_def)
  qed (use inv len in \<open>simp_all add: populated_def\<close>)
  moreover have "release (concat (map arg_ptrs pop)) h =
      h\<lparr>blocks := (\<lambda>p. if n0 \<le> p \<and> p < next_addr h then None else blocks h p)\<rparr>"
    unfolding release_def ptrs by simp
  ultimately show ?thesis by simp
qed

lemma populated_release:
  assumes wf: "wf_heap h"
    and inv: "populated (Suc (next_addr h)) num (Suc (Suc (next_addr h))) (start_heap num h) h' pop views"
  shows "blocks (DeallocateChannelArgs (Some (next_addr h)) h') = blocks h \<and>
         faulted (DeallocateChannelArgs (Some (next_addr h)) h') = faulted h"
proof -
  let ?n = "next_addr h"
  let ?h1 = "h'\<lparr>blocks := (\<lambda>p. if Suc (Suc ?n) \<le> p \<and> p < next_addr h' then None else blocks h' p)\<rparr>"
  have loop: "dealloc_loop (Suc ?n) num 0 h' = ?h1"
    by (rule populated_dealloc [OF inv])
  from inv have str: "blocks h' ?n = Some (ArgsStruct num (Some (Suc ?n)))"
    by (simp add: populated_def start_heap_def)
  from inv obtain xs where arr: "blocks h' (Suc ?n) = Some (ArgArray xs)"
    by (simp add: populated_def)
  from inv have old: "\<And>p. p < ?n \<Longrightarrow> blocks h' p = blocks h p"
    by (simp add: populated_def start_heap_def)
  from inv have wf': "\<And>p. next_addr h' \<le> p \<Longrightarrow> blocks h' p = None"
    by (simp add: populated_def wf_heap_def)
  from inv have fl: "faulted h' = faulted h"
    by (simp add: populated_def start_heap_def)
  from wf have fresh: "\<And>p. ?n \<le> p \<Longrightarrow> blocks h p = None"
    by (simp add: wf_heap_def)
  have d: "DeallocateChannelArgs (Some ?n) h' =
      ?h1\<lparr>blocks := (blocks ?h1)(Suc ?n := None, ?n := None)\<rparr>"
    using str arr by (simp add: DeallocateChannelArgs_def loop free_def Let_def)
  have "blocks (DeallocateChannelArgs (Some ?n) h') p = blocks h p" for p
  proof (cases "p < ?n")
    case True
    with old [OF True] show ?thesis by (simp add: d)
  next
    case False
    then have "blocks h p = None" using fresh by simp
    moreover have "blocks (DeallocateChannelArgs (Some ?n) h') p = None"
      using False wf' [of p] by (simp add: d)
    ultimately show ?thesis by simp
  qed
  then show ?thesis using fl by (auto simp: d)
qed

lemma ParseChannelArgs_release:
  assumes wf: "wf_heap h"
  shows "blocks (DeallocateChannelArgs (fst (snd (ParseChannelArgs ver v h)))
            (snd (snd (ParseChannelArgs ver v h)))) = blocks h \<and>
         faulted (DeallocateChannelArgs (fst (snd (ParseChannelArgs ver v h)))
            (snd (snd (ParseChannelArgs ver v h)))) = faulted h"
proof -
  let ?v = "if IsUndefined v \<or> IsNull v then JSObject PlainObject [] [] else v"
  have norm: "ParseChannelArgs ver v h = ParseChannelArgs ver ?v h"
    by (cases v) (simp_all add: ParseChannelArgs_def)
  show ?thesis
  proof (cases "IsObject ?v")
    case False
    then have "ParseChannelArgs ver v h = (False, None, h)"
      by (simp add: ParseChannelArgs_def)
    then show ?thesis by (simp add: DeallocateChannelArgs_def)
  next
    case True
    then obtain c ps hs where obj: "?v = JSObject c ps hs" by (cases ?v) auto
    from ParseChannelArgs_object [OF wf obj, of ver] populated_release [OF wf]
    show ?thesis unfolding norm by auto
  qed
qed

section \<open>Reading the result of a successful pass\<close>

lemma those_map_Some: "those (map Some xs) = Some xs"
  by (induction xs) simp_all

lemma populated_inspect:
  assumes inv: "populated arr num n0 h0 h pop views"
    and str: "blocks h ca = Some (ArgsStruct num (Some arr))"
    and full: "length views = num"
  shows "inspect_args (Some ca) h = Some views"
proof -
  from populated_length [OF inv] full have "length pop = num" by simp
  with inv have "blocks h arr = Some (ArgArray pop)" "map (decode_arg h) pop = map Some views"
    by (simp_all add: populated_def)
  with str \<open>length pop = num\<close> show ?thesis
    by (simp add: inspect_args_def those_map_Some)
qed

lemma Get_distinct:
  "distinct (map fst ps) \<Longrightarrow> (k, v) \<in> set ps \<Longrightarrow> Get (JSObject c ps hs) k = v"
  by simp

lemma map_Get_distinct:
  assumes "distinct (map fst ps)"
  shows "map (\<lambda>k. f k (Get (JSObject c ps hs) k)) (map fst ps) = map (\<lambda>(k, v). f k v) ps"
proof -
  have "f (fst x) (Get (JSObject c ps hs) (fst x)) = (case x of (k, v) \<Rightarrow> f k v)" if "x \<in> set ps" for x
    using Get_distinct [OF assms, where k = "fst x" and v = "snd x" and c = c and hs = hs] that by (cases x) simp
  then show ?thesis by simp
qed

lemma ParseChannelArgs_success:
  assumes wf: "wf_heap h"
    and di: "distinct (map fst ps)"
    and ok: "\<forall>v\<in>snd ` set ps. accepted v"
  shows "\<exists>h'. ParseChannelArgs ver (JSObject c ps hs) h = (True, Some (next_addr h), h') \<and>
           inspect_args (Some (next_addr h)) h' =
             Some (map (\<lambda>(k, v). encode_entry ver k v) ps @
                   (if HasOwnProperty (JSObject c ps hs) GRPC_ARG_PRIMARY_USER_AGENT_STRING then []
                    else [user_agent_view ver]))"
proof -
  let ?obj = "JSObject c ps hs"
  have all: "\<forall>k\<in>set (GetOwnPropertyNames ?obj). accepted (Get ?obj k)"
    using ok di by force
  then have tw: "takeWhile (\<lambda>k. accepted (Get ?obj k)) (map fst ps) = map fst ps"
    by (simp add: takeWhile_eq_all_conv)
  have enc: "encoded_args ver ?obj = map (\<lambda>(k, v). encode_entry ver k v) ps @
                   (if HasOwnProperty (JSObject c ps hs) GRPC_ARG_PRIMARY_USER_AGENT_STRING then []
                    else [user_agent_view ver])"
    unfolding encoded_args_def Let_def GetOwnPropertyNames.simps tw
    using map_Get_distinct [OF di, where f = "encode_entry ver" and c = c and hs = hs] by simp
  have len: "length (encoded_args ver ?obj) = num_args_of ?obj"
    unfolding enc by (simp add: num_args_of_def)
  from ParseChannelArgs_object [OF wf refl, where c = c and ps = ps and hs = hs and ver = ver] all
  obtain h' pop where run: "ParseChannelArgs ver ?obj h = (True, Some (next_addr h), h')"
    and inv: "populated (Suc (next_addr h)) (num_args_of ?obj) (Suc (Suc (next_addr h)))
            (start_heap (num_args_of ?obj) h) h' pop (encoded_args ver ?obj)"
    by auto
  from inv have "blocks h' (next_addr h) = Some (ArgsStruct (num_args_of ?obj) (Some (Suc (next_addr h))))"
    by (simp add: populated_def start_heap_def)
  from populated_inspect [OF inv this len] run enc show ?thesis by simp
qed

section \<open>Facts about single entries\<close>



lemma encode_entry_string:
  "encode_entry ver k (JSString s) =
     StringArg (k @ [NUL])
       (if strcmp_eq0 (k @ [NUL]) (GRPC_ARG_PRIMARY_USER_AGENT_STRING @ [NUL])
        then s @ '' '' @ ''grpc-node/'' @ ver @ [NUL]
        else s @ [NUL])"
  by (simp add: encode_entry_def)


lemma strcmp_eq0_refl: "strcmp_eq0 a a"
  by (simp add: strcmp_eq0_def)

lemma ParseChannelArgs_null:
  "IsUndefined v \<or> IsNull v \<Longrightarrow>
   ParseChannelArgs ver v h = ParseChannelArgs ver (JSObject PlainObject [] []) h"
  by (cases v) (simp_all add: ParseChannelArgs_def)


lemma wf_empty_heap: "wf_heap empty_heap"
  by (simp add: wf_heap_def empty_heap_def)




section \<open>Claims about the argument encoder\<close>

text \<open>
  C1. For an options object (own property names distinct, as in every JavaScript object) one
  of whose values is neither a string nor a 32-bit integer, \<open>ParseChannelArgs\<close> returns
  false. The array it leaves behind holds the entries of the keys before the first rejected
  value, each with a non-null key, followed by entries that are still zeroed, so that the
  loop of \<open>DeallocateChannelArgs\<close> stops at the first null key. Deallocating the result
  leaves exactly the blocks that were live before the pass: every buffer, the array and the
  struct allocated by the pass are freed, no other block is, and no \<open>free\<close> is given a
  pointer that is not live.
\<close>

theorem rejected_value_fails_and_release_is_exact:
  assumes wf: "wf_heap h"
    and di: "distinct (map fst ps)"
    and bad: "(k, v) \<in> set ps" "\<not> IsString v" "\<not> IsInt32 v"
  shows "case ParseChannelArgs ver (JSObject c ps hs) h of
           (ok, channel_args, h') \<Rightarrow>
             \<not> ok \<and>
             (\<exists>pop. blocks h' (Suc (next_addr h)) =
                      Some (ArgArray (pop @
                        replicate (num_args_of (JSObject c ps hs) - length pop) zero_arg)) \<and>
                    (\<forall>a\<in>set pop. arg_key a \<noteq> None) \<and>
                    length pop = length (takeWhile (\<lambda>(k, v). accepted v) ps)) \<and>
             blocks (DeallocateChannelArgs channel_args h') = blocks h \<and>
             faulted (DeallocateChannelArgs channel_args h') = faulted h"
proof -
  let ?obj = "JSObject c ps hs"
  from ParseChannelArgs_object [OF wf refl, where c = c and ps = ps and hs = hs and ver = ver]
  obtain h' pop where
    run: "ParseChannelArgs ver ?obj h =
            ((\<forall>k\<in>set (GetOwnPropertyNames ?obj). accepted (Get ?obj k)), Some (next_addr h), h')"
    and inv: "populated (Suc (next_addr h)) (num_args_of ?obj) (Suc (Suc (next_addr h)))
            (start_heap (num_args_of ?obj) h) h' pop (encoded_args ver ?obj)"
    by blast
  have "Get ?obj k = v" using di bad(1) by (rule Get_distinct)
  with bad have rej: "\<not> accepted (Get ?obj k)" by (simp add: accepted_def)
  moreover have kin: "k \<in> set (GetOwnPropertyNames ?obj)" using bad(1) by force
  ultimately have fail: "\<not> (\<forall>k\<in>set (GetOwnPropertyNames ?obj). accepted (Get ?obj k))"
    by blast
  have tw: "takeWhile (\<lambda>k. accepted (Get ?obj k)) (map fst ps) =
            map fst (takeWhile (\<lambda>(k, v). accepted v) ps)"
  proof -
    have "map (\<lambda>k. accepted (Get ?obj k)) (map fst ps) = map (\<lambda>(k, v). accepted v) ps"
      by (rule map_Get_distinct [OF di])
    then have "\<And>x. x \<in> set ps \<Longrightarrow> accepted (Get ?obj (fst x)) = (case x of (k, v) \<Rightarrow> accepted v)"
      by simp
    then have "takeWhile ((\<lambda>k. accepted (Get ?obj k)) \<circ> fst) ps = takeWhile (\<lambda>(k, v). accepted v) ps"
      by (intro takeWhile_cong) auto
    then show ?thesis by (simp add: takeWhile_map)
  qed
  have "length (takeWhile (\<lambda>k. accepted (Get ?obj k)) (GetOwnPropertyNames ?obj))
          \<noteq> length (GetOwnPropertyNames ?obj)"
    using fail by (simp only: takeWhile_all) simp
  then have "length (encoded_args ver ?obj) = length (takeWhile (\<lambda>(k, v). accepted v) ps)"
    using tw by (simp add: encoded_args_def Let_def)
  with populated_length [OF inv]
  have len: "length pop = length (takeWhile (\<lambda>(k, v). accepted v) ps)" by simp
  from inv have shape: "blocks h' (Suc (next_addr h)) =
      Some (ArgArray (pop @ replicate (num_args_of ?obj - length pop) zero_arg))"
    and keys: "\<forall>a\<in>set pop. arg_key a \<noteq> None"
    by (simp_all add: populated_def)
  have ex: "\<exists>pop. blocks h' (Suc (next_addr h)) =
                      Some (ArgArray (pop @
                        replicate (num_args_of ?obj - length pop) zero_arg)) \<and>
                    (\<forall>a\<in>set pop. arg_key a \<noteq> None) \<and>
                    length pop = length (takeWhile (\<lambda>(k, v). accepted v) ps)"
    using shape keys len by blast
  have run': "ParseChannelArgs ver ?obj h = (False, Some (next_addr h), h')"
    using run fail by simp
  show ?thesis
    unfolding run' using populated_release [OF wf inv] ex by simp
qed

text \<open>The theorem at an object whose second value is \<open>null\<close>.\<close>

theorem rejected_value_fails_and_release_is_exact_witness:
  "wf_heap empty_heap \<and>
   distinct (map fst [(''a'', JSNumber (Integral 3)), (''b'', JSNull), (''c'', JSString ''x'')]) \<and>
   (''b'', JSNull) \<in> set [(''a'', JSNumber (Integral 3)), (''b'', JSNull), (''c'', JSString ''x'')] \<and>
   \<not> IsString JSNull \<and> \<not> IsInt32 JSNull \<and>
   (case ParseChannelArgs ''1.0''
           (JSObject PlainObject
              [(''a'', JSNumber (Integral 3)), (''b'', JSNull), (''c'', JSString ''x'')] [])
           empty_heap of
      (ok, channel_args, h') \<Rightarrow>
        \<not> ok \<and>
        blocks (DeallocateChannelArgs channel_args h') = blocks empty_heap \<and>
        faulted (DeallocateChannelArgs channel_args h') = faulted empty_heap)"
proof -
  have wf: "wf_heap empty_heap" by (simp add: wf_heap_def empty_heap_def)
  have di: "distinct (map fst [(''a'', JSNumber (Integral 3)), (''b'', JSNull), (''c'', JSString ''x'')])"
    by simp
  have mem: "(''b'', JSNull) \<in> set [(''a'', JSNumber (Integral 3)), (''b'', JSNull), (''c'', JSString ''x'')]"
    by simp
  from rejected_value_fails_and_release_is_exact [OF wf di mem, where ver = "''1.0''" and c = PlainObject and hs = "[]"] wf
  show ?thesis by (auto split: prod.splits)
qed




text \<open>
  The identification entry of a successful pass over an object that has no non-enumerable
  property named by the identification key: with the key and a string value, the list has as
  many entries as the object has enumerable properties and the entry of that key holds the
  user's string, one space and the identification string; without the key, the list has one
  more entry, the last one, which holds the identification key and exactly the
  identification string.
\<close>

lemma identification_entry_value:
  assumes wf: "wf_heap h"
    and di: "distinct (map fst ps)"
    and enumerable: "GRPC_ARG_PRIMARY_USER_AGENT_STRING \<notin> fst ` set hs"
    and ok: "fst (ParseChannelArgs ver (JSObject c ps hs) h)"
  shows "\<exists>views.
     inspect_args (fst (snd (ParseChannelArgs ver (JSObject c ps hs) h)))
       (snd (snd (ParseChannelArgs ver (JSObject c ps hs) h))) = Some views \<and>
     (case map_of ps GRPC_ARG_PRIMARY_USER_AGENT_STRING of
        None \<Rightarrow>
          length views = length ps + 1 \<and>
          last views =
            StringArg (GRPC_ARG_PRIMARY_USER_AGENT_STRING @ [NUL]) (''grpc-node/'' @ ver @ [NUL])
      | Some (JSString s) \<Rightarrow>
          length views = length ps \<and>
          StringArg (GRPC_ARG_PRIMARY_USER_AGENT_STRING @ [NUL])
            (s @ '' '' @ ''grpc-node/'' @ ver @ [NUL]) \<in> set views
      | Some _ \<Rightarrow> length views = length ps)"
proof -
  let ?obj = "JSObject c ps hs"
  let ?ua = GRPC_ARG_PRIMARY_USER_AGENT_STRING
  let ?views = "map (\<lambda>(k, v). encode_entry ver k v) ps @
           (if ?ua \<in> fst ` set ps then [] else [user_agent_view ver])"
  from enumerable have has: "HasOwnProperty ?obj ?ua \<longleftrightarrow> ?ua \<in> fst ` set ps"
    by simp
  from ParseChannelArgs_object [OF wf refl, where c = c and ps = ps and hs = hs and ver = ver]
  obtain h1 where "ParseChannelArgs ver ?obj h =
      ((\<forall>k\<in>set (GetOwnPropertyNames ?obj). accepted (Get ?obj k)), Some (next_addr h), h1)"
    by blast
  with ok have all: "\<forall>k\<in>set (GetOwnPropertyNames ?obj). accepted (Get ?obj k)"
    by (simp del: GetOwnPropertyNames.simps Get.simps)
  have acc: "\<forall>v\<in>snd ` set ps. accepted v"
  proof
    fix v assume "v \<in> snd ` set ps"
    then obtain k where kv: "(k, v) \<in> set ps" by auto
    then have "k \<in> set (GetOwnPropertyNames ?obj)" by force
    with all have "accepted (Get ?obj k)" by blast
    with Get_distinct [OF di kv, of c hs] show "accepted v" by simp
  qed
  from ParseChannelArgs_success [OF wf di acc, where ver = ver and c = c and hs = hs]
  obtain h' where run: "ParseChannelArgs ver ?obj h = (True, Some (next_addr h), h')"
    and ins: "inspect_args (Some (next_addr h)) h' = Some ?views"
    unfolding has by blast
  have "case map_of ps ?ua of
        None \<Rightarrow>
          length ?views = length ps + 1 \<and>
          last ?views = StringArg (?ua @ [NUL]) (''grpc-node/'' @ ver @ [NUL])
      | Some (JSString s) \<Rightarrow>
          length ?views = length ps \<and>
          StringArg (?ua @ [NUL]) (s @ '' '' @ ''grpc-node/'' @ ver @ [NUL]) \<in> set ?views
      | Some _ \<Rightarrow> length ?views = length ps"
  proof (cases "map_of ps ?ua")
    case None
    then have "?ua \<notin> fst ` set ps" by (simp add: map_of_eq_None_iff)
    with None show ?thesis by (simp add: user_agent_view_def)
  next
    case (Some v)
    then have kv: "(?ua, v) \<in> set ps" by (rule map_of_SomeD)
    then have has: "?ua \<in> fst ` set ps" by force
    show ?thesis
    proof (cases "\<exists>s. v = JSString s")
      case True
      then obtain s where v: "v = JSString s" by blast
      from kv have "encode_entry ver ?ua v \<in> set ?views" by force
      then have "StringArg (?ua @ [NUL]) (s @ '' '' @ ''grpc-node/'' @ ver @ [NUL]) \<in> set ?views"
        unfolding v encode_entry_string by (simp only: strcmp_eq0_refl if_True)
      with has Some v show ?thesis by simp
    next
      case False
      with has Some show ?thesis by (cases v) simp_all
    qed
  qed
  with run ins show ?thesis by (intro exI [of _ ?views]) simp
qed

text \<open>
  C3 fails on the code. When the identification key is a non-enumerable own property of the
  options, \<open>HasOwnProperty\<close> (line 91) finds it, so that no slot is reserved and no
  identification entry is added (lines 94 and 147), and \<open>GetOwnPropertyNames\<close> (line 87)
  does not list it, so that the loop never appends to the user's value: the pass succeeds
  with a list that has no identification entry at all.
\<close>

theorem hidden_identification_key_gives_no_entry:
  "HasOwnProperty
     (JSObject PlainObject [] [(''grpc.primary_user_agent'', JSString ''myapp/1.0'')])
     GRPC_ARG_PRIMARY_USER_AGENT_STRING \<and>
   GetOwnPropertyNames
     (JSObject PlainObject [] [(''grpc.primary_user_agent'', JSString ''myapp/1.0'')]) = [] \<and>
   fst (ParseChannelArgs ''1.0''
          (JSObject PlainObject [] [(''grpc.primary_user_agent'', JSString ''myapp/1.0'')])
          empty_heap) \<and>
   inspect_args
     (fst (snd (ParseChannelArgs ''1.0''
          (JSObject PlainObject [] [(''grpc.primary_user_agent'', JSString ''myapp/1.0'')])
          empty_heap)))
     (snd (snd (ParseChannelArgs ''1.0''
          (JSObject PlainObject [] [(''grpc.primary_user_agent'', JSString ''myapp/1.0'')])
          empty_heap)))
     = Some []"
proof -
  let ?hs = "[(''grpc.primary_user_agent'', JSString ''myapp/1.0'')]"
  have has: "HasOwnProperty (JSObject PlainObject [] ?hs) GRPC_ARG_PRIMARY_USER_AGENT_STRING"
    by (simp add: GRPC_ARG_PRIMARY_USER_AGENT_STRING_def)
  have di: "distinct (map fst ([]::(string \<times> jsval) list))" by simp
  have ok: "\<forall>v\<in>snd ` set ([]::(string \<times> jsval) list). accepted v" by simp
  from ParseChannelArgs_success [OF wf_empty_heap di ok, where ver = "''1.0''"
      and c = PlainObject and hs = ?hs]
  obtain h' where
    run: "ParseChannelArgs ''1.0'' (JSObject PlainObject [] ?hs) empty_heap =
            (True, Some (next_addr empty_heap), h')"
    and ins: "inspect_args (Some (next_addr empty_heap)) h' =
             Some (map (\<lambda>(k, v). encode_entry ''1.0'' k v) [] @
                   (if HasOwnProperty (JSObject PlainObject [] ?hs)
                         GRPC_ARG_PRIMARY_USER_AGENT_STRING then []
                    else [user_agent_view ''1.0'']))"
    by blast
  from ins has have "inspect_args (Some (next_addr empty_heap)) h' = Some []"
    by (simp only: if_True map_append list.map append_Nil)
  with run has show ?thesis by simp
qed

section \<open>Facts about the Channel methods\<close>

lemma Channel_Close_closes:
  "wrapped_channel (snd (Channel_Close (JSObject (ChannelObject ch) ps hs) info w)) ch = None"
  by (simp add: Channel_Close_def split: option.splits)

lemma Channel_Close_closed:
  "wrapped_channel w ch = None \<Longrightarrow>
   Channel_Close (JSObject (ChannelObject ch) ps hs) info w = (Inr JSUndefined, w)"
  by (simp add: Channel_Close_def)

lemma close_times_closed:
  "wrapped_channel w ch = None \<Longrightarrow> close_times n (JSObject (ChannelObject ch) ps hs) w = w"
  by (induction n) (simp_all add: Channel_Close_closed)

lemma Channel_Close_trace:
  "trace (snd (Channel_Close (JSObject (ChannelObject ch) ps hs) info w)) =
     trace w @ (case wrapped_channel w ch of None \<Rightarrow> [] | Some c \<Rightarrow> [ChannelDestroy c])"
  by (simp add: Channel_Close_def split: option.splits)

lemma Channel_destructor_closed:
  "wrapped_channel w ch = None \<Longrightarrow> Channel_destructor ch w = w"
  by (simp add: Channel_destructor_def)

lemma info_at_three:
  "info_at [a, b, c] 0 = a" "info_at [a, b, c] 1 = b" "info_at [a, b, c] 2 = c"
  by (simp_all add: info_at_def)

lemma Channel_New_call:
  "Channel_New ver core False info w = Channel_New ver core True info w"
  unfolding Channel_New_def Channel_construct_def info_at_three by simp

lemma Channel_construct_created:
  assumes "IsString (info_at info 0)" "ChannelCredentials_HasInstance (info_at info 1)"
    and "fst (ParseChannelArgs ver (info_at info 2) (mem w))"
  shows "Channel_construct ver core info w =
    (Inr (JSObject (ChannelObject (next_channel w)) [] []),
     w\<lparr>mem := DeallocateChannelArgs
                (fst (snd (ParseChannelArgs ver (info_at info 2) (mem w))))
                (snd (snd (ParseChannelArgs ver (info_at info 2) (mem w)))),
       wrapped_channel := (wrapped_channel w)(next_channel w := channel_create_result core),
       next_channel := Suc (next_channel w),
       trace := trace w @
         [case GetWrappedCredentials (info_at info 1) of
            None \<Rightarrow> InsecureChannelCreate (Utf8String (info_at info 0))
              (inspect_args (fst (snd (ParseChannelArgs ver (info_at info 2) (mem w))))
                 (snd (snd (ParseChannelArgs ver (info_at info 2) (mem w)))))
          | Some c \<Rightarrow> SecureChannelCreate c (Utf8String (info_at info 0))
              (inspect_args (fst (snd (ParseChannelArgs ver (info_at info 2) (mem w))))
                 (snd (snd (ParseChannelArgs ver (info_at info 2) (mem w)))))]\<rparr>)"
  using assms by (simp add: Channel_construct_def Let_def case_prod_beta)

lemma ParseChannelArgs_empty_ok:
  "wf_heap h \<Longrightarrow> fst (ParseChannelArgs ver (JSObject PlainObject [] []) h)"
  using ParseChannelArgs_object [OF _ refl, where c = PlainObject and ps = "[]" and hs = "[]" and ver = ver and h = h]
  by auto

section \<open>Claims about the Channel object\<close>

text \<open>
  C4. After \<open>close()\<close> on a Channel, \<open>getTarget\<close>, \<open>getConnectivityState\<close>,
  \<open>watchConnectivityState\<close> with a uint32 state, a number or date and a function, and
  \<open>createCall\<close> with a string method, a number or date, and a parent call and flags that
  are valid or left out, each throw the plain error that names the closed channel, and
  leave the state as it was: no call into the grpc core or the completion queue is made.
\<close>

theorem closed_channel_operations_fail:
  assumes watch_args: "IsUint32 (info_at wi 0)" "IsNumber (info_at wi 1) \<or> IsDate (info_at wi 1)"
      "IsFunction (info_at wi 2)"
    and call_args: "IsString (info_at ci 0)" "IsNumber (info_at ci 1) \<or> IsDate (info_at ci 1)"
      "Call_HasInstance (info_at ci 3) \<or> IsUndefined (info_at ci 3) \<or> IsNull (info_at ci 3)"
      "IsUint32 (info_at ci 4) \<or> IsUndefined (info_at ci 4) \<or> IsNull (info_at ci 4)"
    and closed: "w = snd (Channel_Close (JSObject (ChannelObject ch) ps hs) close_info w0)"
  shows "Channel_GetTarget core (JSObject (ChannelObject ch) ps hs) ti w =
           (Inl (Error ''Cannot call getTarget on a closed Channel''), w) \<and>
         Channel_GetConnectivityState core (JSObject (ChannelObject ch) ps hs) si w =
           (Inl (Error ''Cannot call getConnectivityState on a closed Channel''), w) \<and>
         Channel_WatchConnectivityState (JSObject (ChannelObject ch) ps hs) wi w =
           (Inl (Error ''Cannot call watchConnectivityState on a closed Channel''), w) \<and>
         Channel_CreateCall core (JSObject (ChannelObject ch) ps hs) ci w =
           (Inl (Error ''Cannot createCall with a closed Channel''), w)"
proof -
  have null: "wrapped_channel w ch = None"
    unfolding closed by (rule Channel_Close_closes)
  have "Channel_GetTarget core (JSObject (ChannelObject ch) ps hs) ti w =
           (Inl (Error ''Cannot call getTarget on a closed Channel''), w)"
    using null by (simp add: Channel_GetTarget_def)
  moreover have "Channel_GetConnectivityState core (JSObject (ChannelObject ch) ps hs) si w =
           (Inl (Error ''Cannot call getConnectivityState on a closed Channel''), w)"
    using null by (simp add: Channel_GetConnectivityState_def)
  moreover have "Channel_WatchConnectivityState (JSObject (ChannelObject ch) ps hs) wi w =
           (Inl (Error ''Cannot call watchConnectivityState on a closed Channel''), w)"
    using null watch_args by (simp add: Channel_WatchConnectivityState_def)
  moreover have "Channel_CreateCall core (JSObject (ChannelObject ch) ps hs) ci w =
           (Inl (Error ''Cannot createCall with a closed Channel''), w)"
    using null call_args by (auto simp: Channel_CreateCall_def Let_def)
  ultimately show ?thesis by blast
qed

text \<open>The theorem at the channel of \<open>open_world\<close> once closed.\<close>

theorem closed_channel_operations_fail_witness:
  "Channel_GetTarget test_core (JSObject (ChannelObject 0) [] []) [] closed_world =
     (Inl (Error ''Cannot call getTarget on a closed Channel''), closed_world) \<and>
   Channel_GetConnectivityState test_core (JSObject (ChannelObject 0) [] []) [JSBoolean True]
       closed_world =
     (Inl (Error ''Cannot call getConnectivityState on a closed Channel''), closed_world) \<and>
   Channel_WatchConnectivityState (JSObject (ChannelObject 0) [] [])
       [JSNumber (Integral 0), JSNumber (Integral 1000), JSObject FunctionObject [] []]
       closed_world =
     (Inl (Error ''Cannot call watchConnectivityState on a closed Channel''), closed_world) \<and>
   Channel_CreateCall test_core (JSObject (ChannelObject 0) [] [])
       [JSString ''/pkg.Service/Method'', JSNumber (Integral 1000)] closed_world =
     (Inl (Error ''Cannot createCall with a closed Channel''), closed_world) \<and>
   trace closed_world = [ChannelDestroy 7]"
proof -
  have tr: "trace closed_world = [ChannelDestroy 7]"
    by (simp add: closed_world_def Channel_Close_def open_world_def)
  from closed_channel_operations_fail [where
      wi = "[JSNumber (Integral 0), JSNumber (Integral 1000), JSObject FunctionObject [] []]"
      and ci = "[JSString ''/pkg.Service/Method'', JSNumber (Integral 1000)]"
      and w = closed_world and ch = 0 and ps = "[]" and close_info = "[]" and w0 = open_world
      and core = test_core and ti = "[]" and si = "[JSBoolean True]"] tr
  show ?thesis by (simp add: info_at_def closed_world_def)
qed

text \<open>
  C5. A second \<open>close()\<close> returns normally and changes nothing; after a \<open>close()\<close> the
  handle is null and the destructor changes nothing; and any number of \<open>close()\<close> calls
  followed by the destructor call \<open>grpc_channel_destroy\<close> exactly once on a handle that was
  not null, and never on a null one.
\<close>

theorem close_is_idempotent:
  "Channel_Close (JSObject (ChannelObject ch) ps hs) info2
       (snd (Channel_Close (JSObject (ChannelObject ch) ps hs) info1 w)) =
     (Inr JSUndefined, snd (Channel_Close (JSObject (ChannelObject ch) ps hs) info1 w)) \<and>
   wrapped_channel (snd (Channel_Close (JSObject (ChannelObject ch) ps hs) info1 w)) ch = None \<and>
   Channel_destructor ch (snd (Channel_Close (JSObject (ChannelObject ch) ps hs) info1 w)) =
     snd (Channel_Close (JSObject (ChannelObject ch) ps hs) info1 w) \<and>
   trace (Channel_destructor ch (close_times n (JSObject (ChannelObject ch) ps hs) w)) =
     trace w @ (case wrapped_channel w ch of None \<Rightarrow> [] | Some c \<Rightarrow> [ChannelDestroy c])"
proof -
  let ?chan = "JSObject (ChannelObject ch) ps hs"
  let ?w1 = "snd (Channel_Close ?chan info1 w)"
  have null: "wrapped_channel ?w1 ch = None" by (rule Channel_Close_closes)
  have "trace (Channel_destructor ch (close_times n ?chan w)) =
     trace w @ (case wrapped_channel w ch of None \<Rightarrow> [] | Some c \<Rightarrow> [ChannelDestroy c])"
  proof (cases n)
    case 0
    then show ?thesis by (simp add: Channel_destructor_def split: option.splits)
  next
    case (Suc m)
    let ?w2 = "snd (Channel_Close ?chan [] w)"
    have n2: "wrapped_channel ?w2 ch = None" by (rule Channel_Close_closes)
    have "close_times n ?chan w = ?w2"
      unfolding Suc close_times.simps by (rule close_times_closed [OF n2])
    then show ?thesis
      by (simp add: Channel_destructor_closed [OF n2] Channel_Close_trace)
  qed
  with null Channel_Close_closed [OF null] Channel_destructor_closed [OF null]
  show ?thesis by simp
qed

text \<open>The theorem at the open channel of \<open>open_world\<close>, closed three times and torn down.\<close>

theorem close_is_idempotent_witness:
  "Channel_Close (JSObject (ChannelObject 0) [] []) []
       (snd (Channel_Close (JSObject (ChannelObject 0) [] []) [] open_world)) =
     (Inr JSUndefined, snd (Channel_Close (JSObject (ChannelObject 0) [] []) [] open_world)) \<and>
   trace (Channel_destructor 0 (close_times 3 (JSObject (ChannelObject 0) [] []) open_world)) =
     [ChannelDestroy 7]"
  using close_is_idempotent [of 0 "[]" "[]" "[]" "[]" open_world 3]
  by (simp add: open_world_def)

text \<open>
  C6, as amended. When the grpc core returns a null handle for a construction whose
  target is a string, whose credentials are a \<open>ChannelCredentials\<close> and whose options
  encode, \<open>Channel::New\<close> still returns a Channel object; its handle is null, so that the
  object is closed from the start (\<open>getTarget\<close> on it throws the closed-channel error); and
  the argument list has been released.
\<close>

theorem null_handle_still_constructs:
  assumes wf: "wf_heap (mem w)"
    and target: "IsString (info_at info 0)"
    and creds: "ChannelCredentials_HasInstance (info_at info 1)"
    and options: "fst (ParseChannelArgs ver (info_at info 2) (mem w))"
    and null: "channel_create_result core = None"
  shows "fst (Channel_New ver core is_construct_call info w) =
           Inr (JSObject (ChannelObject (next_channel w)) [] []) \<and>
         wrapped_channel (snd (Channel_New ver core is_construct_call info w)) (next_channel w) =
           None \<and>
         Channel_GetTarget core (JSObject (ChannelObject (next_channel w)) [] []) target_info
             (snd (Channel_New ver core is_construct_call info w)) =
           (Inl (Error ''Cannot call getTarget on a closed Channel''),
            snd (Channel_New ver core is_construct_call info w)) \<and>
         blocks (mem (snd (Channel_New ver core is_construct_call info w))) = blocks (mem w) \<and>
         faulted (mem (snd (Channel_New ver core is_construct_call info w))) = faulted (mem w)"
proof -
  have new: "Channel_New ver core is_construct_call info w = Channel_construct ver core info w"
    using Channel_New_call [of ver core info w] by (cases is_construct_call) (simp_all add: Channel_New_def)
  note rel = ParseChannelArgs_release [OF wf, of ver "info_at info 2"]
  show ?thesis
    unfolding new Channel_construct_created [OF target creds options]
    using null rel by (simp add: Channel_GetTarget_def)
qed

text \<open>The theorem at a core that returns a null handle.\<close>

theorem null_handle_still_constructs_witness:
  "wf_heap (mem fresh_world) \<and> channel_create_result null_core = None \<and>
   fst (Channel_New ''1.0'' null_core True
      [JSString ''localhost:0'', JSObject (ChannelCredentialsObject None) [] [],
       JSObject PlainObject [] []] fresh_world) = Inr (JSObject (ChannelObject 0) [] []) \<and>
   wrapped_channel (snd (Channel_New ''1.0'' null_core True
      [JSString ''localhost:0'', JSObject (ChannelCredentialsObject None) [] [],
       JSObject PlainObject [] []] fresh_world)) 0 = None \<and>
   blocks (mem (snd (Channel_New ''1.0'' null_core True
      [JSString ''localhost:0'', JSObject (ChannelCredentialsObject None) [] [],
       JSObject PlainObject [] []] fresh_world))) = blocks (mem fresh_world)"
proof -
  let ?info = "[JSString ''localhost:0'', JSObject (ChannelCredentialsObject None) [] [],
      JSObject PlainObject [] []]"
  have wf: "wf_heap (mem fresh_world)" by (simp add: fresh_world_def wf_empty_heap)
  have t: "IsString (info_at ?info 0)" by (simp add: info_at_def)
  have c: "ChannelCredentials_HasInstance (info_at ?info 1)" by (simp add: info_at_def)
  have "fst (ParseChannelArgs ''1.0'' (JSObject PlainObject [] []) (mem fresh_world))"
    using wf by (rule ParseChannelArgs_empty_ok)
  then have o: "fst (ParseChannelArgs ''1.0'' (info_at ?info 2) (mem fresh_world))"
    by (simp add: info_at_def)
  have n: "channel_create_result null_core = None" by (simp add: null_core_def)
  from null_handle_still_constructs [OF wf t c o n, of True "[]"] wf n
  show ?thesis by (simp add: fresh_world_def)
qed

text \<open>
  C6 as stated fails: with a core that returns a null handle the construction returns a
  Channel object and throws nothing.
\<close>

theorem null_handle_constructs_counterexample:
  "channel_create_result null_core = None \<and>
   fst (Channel_New ''1.0'' null_core True
      [JSString ''localhost:0'', JSObject (ChannelCredentialsObject None) [] [],
       JSObject PlainObject [] []] fresh_world) = Inr (JSObject (ChannelObject 0) [] [])"
proof -
  let ?info = "[JSString ''localhost:0'', JSObject (ChannelCredentialsObject None) [] [],
      JSObject PlainObject [] []]"
  have wf: "wf_heap (mem fresh_world)" by (simp add: fresh_world_def wf_empty_heap)
  have t: "IsString (info_at ?info 0)" by (simp add: info_at_def)
  have c: "ChannelCredentials_HasInstance (info_at ?info 1)" by (simp add: info_at_def)
  have "fst (ParseChannelArgs ''1.0'' (JSObject PlainObject [] []) (mem fresh_world))"
    using wf by (rule ParseChannelArgs_empty_ok)
  then have o: "fst (ParseChannelArgs ''1.0'' (info_at ?info 2) (mem fresh_world))"
    by (simp add: info_at_def)
  have n0: "next_channel fresh_world = 0" by (simp add: fresh_world_def)
  have "fst (Channel_New ''1.0'' null_core True ?info fresh_world) =
      Inr (JSObject (ChannelObject 0) [] [])"
    unfolding Channel_New_def Channel_construct_created [OF t c o] n0 by simp
  then show ?thesis by (simp add: null_core_def)
qed

text \<open>
  C7 fails on the code. On an open channel, \<open>createCall\<close> with a third argument that is
  neither a string nor null nor undefined throws the type error after the slice of the
  method has been created, and returns without \<open>grpc_slice_unref\<close>: the slice (at address
  1) stays allocated, although no call was made. With the host left out, and with a string
  host, the slice of the method is released after the call; with a string host the
  \<open>grpc_slice\<close> holding the host (address 2) is deleted, and the slice it holds (address 3)
  is not unreferenced.
\<close>

theorem createCall_bad_host_leaks_method:
  "blocks (mem open_world) 1 = None \<and>
   fst (Channel_CreateCall test_core (JSObject (ChannelObject 0) [] [])
      [JSString ''/pkg.Service/Method'', JSNumber (Integral 1000), JSNumber (Integral 42)]
      open_world) = Inl (TypeError ''createCall's third argument must be a string'') \<and>
   trace (snd (Channel_CreateCall test_core (JSObject (ChannelObject 0) [] [])
      [JSString ''/pkg.Service/Method'', JSNumber (Integral 1000), JSNumber (Integral 42)]
      open_world)) = [] \<and>
   blocks (mem (snd (Channel_CreateCall test_core (JSObject (ChannelObject 0) [] [])
      [JSString ''/pkg.Service/Method'', JSNumber (Integral 1000), JSNumber (Integral 42)]
      open_world))) 1 = Some (SliceData ''/pkg.Service/Method'') \<and>
   faulted (mem (snd (Channel_CreateCall test_core (JSObject (ChannelObject 0) [] [])
      [JSString ''/pkg.Service/Method'', JSNumber (Integral 1000), JSNumber (Integral 42)]
      open_world))) = False \<and>
   trace (snd (Channel_CreateCall test_core (JSObject (ChannelObject 0) [] [])
      [JSString ''/pkg.Service/Method'', JSNumber (Integral 1000)] open_world)) =
     [ChannelCreateCall 7 None 65535 1 None (JSNumber (Integral 1000))] \<and>
   blocks (mem (snd (Channel_CreateCall test_core (JSObject (ChannelObject 0) [] [])
      [JSString ''/pkg.Service/Method'', JSNumber (Integral 1000)] open_world))) 1 = None \<and>
   trace (snd (Channel_CreateCall test_core (JSObject (ChannelObject 0) [] [])
      [JSString ''/pkg.Service/Method'', JSNumber (Integral 1000), JSString ''example.org'']
      open_world)) =
     [ChannelCreateCall 7 None 65535 1 (Some 2) (JSNumber (Integral 1000))] \<and>
   blocks (mem (snd (Channel_CreateCall test_core (JSObject (ChannelObject 0) [] [])
      [JSString ''/pkg.Service/Method'', JSNumber (Integral 1000), JSString ''example.org'']
      open_world))) 1 = None \<and>
   blocks (mem (snd (Channel_CreateCall test_core (JSObject (ChannelObject 0) [] [])
      [JSString ''/pkg.Service/Method'', JSNumber (Integral 1000), JSString ''example.org'']
      open_world))) 2 = None \<and>
   blocks (mem (snd (Channel_CreateCall test_core (JSObject (ChannelObject 0) [] [])
      [JSString ''/pkg.Service/Method'', JSNumber (Integral 1000), JSString ''example.org'']
      open_world))) 3 = Some (SliceData ''example.org'')"
  by (simp add: Channel_CreateCall_def CreateSliceFromString_def grpc_slice_unref_def
      alloc_def free_def info_at_def open_world_def empty_heap_def test_core_def Let_def)

text \<open>
  C8, as amended. When the first argument of \<open>watchConnectivityState\<close> is not a uint32, or
  the second is neither a number nor a date, or the third is not a function, the call
  throws a type error and leaves the state as it was, on an open and on a closed channel:
  nothing is registered with the completion queue.
\<close>

theorem watch_type_mismatch_registers_nothing:
  assumes "\<not> IsUint32 (info_at info 0) \<or>
           \<not> (IsNumber (info_at info 1) \<or> IsDate (info_at info 1)) \<or>
           \<not> IsFunction (info_at info 2)"
  shows "\<exists>msg. Channel_WatchConnectivityState this info w = (Inl (TypeError msg), w)"
  using assms by (auto simp: Channel_WatchConnectivityState_def)

text \<open>The theorem at a call whose third argument is a string.\<close>

theorem watch_type_mismatch_registers_nothing_witness:
  "\<not> IsFunction (info_at [JSNumber (Integral 0), JSNumber (Integral 1000), JSString ''cb''] 2) \<and>
   (\<exists>msg. Channel_WatchConnectivityState (JSObject (ChannelObject 0) [] [])
       [JSNumber (Integral 0), JSNumber (Integral 1000), JSString ''cb''] open_world =
     (Inl (TypeError msg), open_world))"
proof -
  have h: "\<not> IsFunction (info_at [JSNumber (Integral 0), JSNumber (Integral 1000), JSString ''cb''] 2)"
    by (simp add: info_at_def)
  then have "\<not> IsUint32 (info_at [JSNumber (Integral 0), JSNumber (Integral 1000), JSString ''cb''] 0) \<or>
           \<not> (IsNumber (info_at [JSNumber (Integral 0), JSNumber (Integral 1000), JSString ''cb''] 1) \<or>
              IsDate (info_at [JSNumber (Integral 0), JSNumber (Integral 1000), JSString ''cb''] 1)) \<or>
           \<not> IsFunction (info_at [JSNumber (Integral 0), JSNumber (Integral 1000), JSString ''cb''] 2)"
    by blast
  from watch_type_mismatch_registers_nothing [OF this] h show ?thesis by blast
qed

text \<open>
  C8 as stated fails: the state 99 is no connectivity state, and on an open channel the
  watch is registered with it all the same.
\<close>

theorem watch_unrecognized_state_counterexample:
  "\<not> is_connectivity_state 99 \<and>
   Channel_WatchConnectivityState (JSObject (ChannelObject 0) [] [])
       [JSNumber (Integral 99), JSNumber (Integral 1000), JSObject FunctionObject [] []] open_world =
     (Inr JSUndefined,
      open_world\<lparr>trace :=
        [ChannelWatchConnectivityState 7 99 (JSNumber (Integral 1000)) (JSObject FunctionObject [] []),
         CompletionQueueNext]\<rparr>)"
  by (simp add: is_connectivity_state_def Channel_WatchConnectivityState_def info_at_def
      open_world_def)

text \<open>
  C9, as amended. For a string target and options that encode, \<open>Channel::New\<close> accepts as
  credentials exactly the instances of \<open>ChannelCredentials\<close>: for an instance whose wrapped
  credentials are null it calls \<open>grpc_insecure_channel_create\<close>, for any other instance
  \<open>grpc_secure_channel_create\<close> with the wrapped credentials, and for every other second
  argument, \<open>null\<close> included, it throws the type error and makes no call.
\<close>

theorem credentials_must_be_ChannelCredentials:
  assumes target: "IsString (info_at info 0)"
    and options: "fst (ParseChannelArgs ver (info_at info 2) (mem w))"
  shows "if ChannelCredentials_HasInstance (info_at info 1) then
           fst (Channel_New ver core is_construct_call info w) =
             Inr (JSObject (ChannelObject (next_channel w)) [] []) \<and>
           trace (snd (Channel_New ver core is_construct_call info w)) =
             trace w @
               [case GetWrappedCredentials (info_at info 1) of
                  None \<Rightarrow> InsecureChannelCreate (Utf8String (info_at info 0))
                    (inspect_args (fst (snd (ParseChannelArgs ver (info_at info 2) (mem w))))
                       (snd (snd (ParseChannelArgs ver (info_at info 2) (mem w)))))
                | Some c \<Rightarrow> SecureChannelCreate c (Utf8String (info_at info 0))
                    (inspect_args (fst (snd (ParseChannelArgs ver (info_at info 2) (mem w))))
                       (snd (snd (ParseChannelArgs ver (info_at info 2) (mem w)))))]
         else
           Channel_New ver core is_construct_call info w =
             (Inl (TypeError ''Channel's second argument must be a ChannelCredentials''), w)"
proof -
  have new: "Channel_New ver core is_construct_call info w = Channel_construct ver core info w"
    using Channel_New_call [of ver core info w] by (cases is_construct_call) (simp_all add: Channel_New_def)
  show ?thesis
  proof (cases "ChannelCredentials_HasInstance (info_at info 1)")
    case True
    with Channel_construct_created [OF target True options, of core] show ?thesis
      unfolding new by simp
  next
    case False
    with target show ?thesis unfolding new by (simp add: Channel_construct_def)
  qed
qed

text \<open>The theorem at insecure credentials and empty options.\<close>

theorem credentials_must_be_ChannelCredentials_witness:
  "IsString (info_at [JSString ''localhost:0'', JSObject (ChannelCredentialsObject None) [] [],
      JSObject PlainObject [] []] 0) \<and>
   fst (ParseChannelArgs ''1.0'' (JSObject PlainObject [] []) (mem fresh_world)) \<and>
   fst (Channel_New ''1.0'' test_core True
      [JSString ''localhost:0'', JSObject (ChannelCredentialsObject None) [] [],
       JSObject PlainObject [] []] fresh_world) = Inr (JSObject (ChannelObject 0) [] []) \<and>
   trace (snd (Channel_New ''1.0'' test_core True
      [JSString ''localhost:0'', JSObject (ChannelCredentialsObject None) [] [],
       JSObject PlainObject [] []] fresh_world)) =
     [InsecureChannelCreate ''localhost:0''
        (inspect_args
           (fst (snd (ParseChannelArgs ''1.0'' (JSObject PlainObject [] []) (mem fresh_world))))
           (snd (snd (ParseChannelArgs ''1.0'' (JSObject PlainObject [] []) (mem fresh_world)))))]"
proof -
  let ?info = "[JSString ''localhost:0'', JSObject (ChannelCredentialsObject None) [] [],
      JSObject PlainObject [] []]"
  have t: "IsString (info_at ?info 0)" by (simp add: info_at_def)
  have "wf_heap (mem fresh_world)" by (simp add: fresh_world_def wf_empty_heap)
  then have p: "fst (ParseChannelArgs ''1.0'' (JSObject PlainObject [] []) (mem fresh_world))"
    by (rule ParseChannelArgs_empty_ok)
  then have o: "fst (ParseChannelArgs ''1.0'' (info_at ?info 2) (mem fresh_world))"
    by (simp add: info_at_def)
  from credentials_must_be_ChannelCredentials [OF t o, of test_core True] t p
  show ?thesis by (simp add: info_at_def fresh_world_def)
qed

text \<open>C9 as stated fails: \<open>null\<close> as credentials is a type error.\<close>

theorem null_credentials_rejected_counterexample:
  "Channel_New ''1.0'' test_core True
      [JSString ''localhost:0'', JSNull, JSObject PlainObject [] []] fresh_world =
     (Inl (TypeError ''Channel's second argument must be a ChannelCredentials''), fresh_world)"
  by (simp add: Channel_New_def Channel_construct_def info_at_def)

text \<open>
  C10. On an open channel \<open>getConnectivityState\<close> throws for no argument whatever, and
  passes \<open>try_to_connect = 1\<close> to the grpc core exactly when its first argument is the
  boolean \<open>true\<close>; for every other value, and for no argument, it passes 0.
\<close>

theorem tryToConnect_only_for_true:
  assumes "wrapped_channel w ch = Some c"
  shows "Channel_GetConnectivityState core (JSObject (ChannelObject ch) ps hs) info w =
     (Inr (JSNumber (Integral (check_connectivity_state_result core))),
      w\<lparr>trace := trace w @
          [ChannelCheckConnectivityState c (if info_at info 0 = JSBoolean True then 1 else 0)]\<rparr>)"
proof -
  have "StrictEquals_True v = (v = JSBoolean True)" for v
    by (cases v) auto
  with assms show ?thesis by (simp add: Channel_GetConnectivityState_def)
qed

text \<open>The theorem at the number 1, at \<open>true\<close> and at no argument.\<close>

theorem tryToConnect_only_for_true_witness:
  "wrapped_channel open_world 0 = Some 7 \<and>
   Channel_GetConnectivityState test_core (JSObject (ChannelObject 0) [] []) [JSNumber (Integral 1)]
       open_world =
     (Inr (JSNumber (Integral 0)),
      open_world\<lparr>trace := trace open_world @ [ChannelCheckConnectivityState 7 0]\<rparr>) \<and>
   Channel_GetConnectivityState test_core (JSObject (ChannelObject 0) [] []) [JSBoolean True]
       open_world =
     (Inr (JSNumber (Integral 0)),
      open_world\<lparr>trace := trace open_world @ [ChannelCheckConnectivityState 7 1]\<rparr>) \<and>
   Channel_GetConnectivityState test_core (JSObject (ChannelObject 0) [] []) [] open_world =
     (Inr (JSNumber (Integral 0)),
      open_world\<lparr>trace := trace open_world @ [ChannelCheckConnectivityState 7 0]\<rparr>)"
proof -
  have op: "wrapped_channel open_world 0 = Some 7" by (simp add: open_world_def)
  from tryToConnect_only_for_true [OF op, of test_core "[]" "[]" "[JSNumber (Integral 1)]"]
    tryToConnect_only_for_true [OF op, of test_core "[]" "[]" "[JSBoolean True]"]
    tryToConnect_only_for_true [OF op, of test_core "[]" "[]" "[]"] op
  show ?thesis by (simp add: info_at_def test_core_def)
qed

end
